theory Spec2Isabelle
  imports Main
begin

section \<open>JavaScript values\<close>

text \<open>
  The values the library handles at run time.  A JSON number is kept as its literal
  text; the two things the code observes of a number (whether it is zero, and its
  decimal rendering by \<^verbatim>\<open>String\<close>) are taken as parameters, see \<open>numops\<close> below.
  Strings are lists of characters; the development is about the ASCII range.
  An object is the list of its own properties in the order \<^verbatim>\<open>Object.entries\<close>
  enumerates them.
\<close>

datatype jsval =
    JUndefined
  | JNull
  | JBool bool
  | JNum string
  | JStr string
  | JArr "jsval list"
  | JObj "(string \<times> jsval) list"

text \<open>
  Exceptions that the modelled code can raise; \<open>CollaboratorError\<close> stands for what a
  collaborator supplied by the application throws.
\<close>

datatype exn = TypeError | SyntaxError | NotFoundError | CollaboratorError

section \<open>Auth state (hoc.tsx)\<close>

text \<open>
  \<^verbatim>\<open>TokenProps = { access_token: string }\<close> and
  \<^verbatim>\<open>HulkAuthStateProps = { token?: TokenProps; user?: UserProps }\<close>.
  A field that is absent reads as \<^verbatim>\<open>undefined\<close>; \<^verbatim>\<open>null\<close> is possible at run time
  (the documentation's own example has \<^verbatim>\<open>user: null\<close>).
\<close>

record TokenProps =
  access_token :: string

datatype 'a nullable = Undefined | Null | Val 'a

record HulkAuthStateProps =
  token :: "TokenProps nullable"
  user :: jsval

text \<open>The operator \<^verbatim>\<open>a ?? b\<close>: \<^verbatim>\<open>b\<close> when \<^verbatim>\<open>a\<close> is \<^verbatim>\<open>undefined\<close> or \<^verbatim>\<open>null\<close>, else \<^verbatim>\<open>a\<close>.\<close>

fun nullish_coalesce :: "'a nullable \<Rightarrow> 'a nullable \<Rightarrow> 'a nullable" where
  "nullish_coalesce Undefined b = b"
| "nullish_coalesce Null b = b"
| "nullish_coalesce (Val v) b = Val v"

fun nullish_coalesce_val :: "jsval \<Rightarrow> jsval \<Rightarrow> jsval" where
  "nullish_coalesce_val JUndefined b = b"
| "nullish_coalesce_val JNull b = b"
| "nullish_coalesce_val a b = a"

text \<open>
  \<^verbatim>\<open>update\<close>: the state updater
  \<^verbatim>\<open>prevState => ({ token: data.token ?? prevState.token, user: data.user ?? prevState.user })\<close>.
\<close>

definition update :: "HulkAuthStateProps \<Rightarrow> HulkAuthStateProps \<Rightarrow> HulkAuthStateProps" where
  "update data prevState =
     \<lparr> token = nullish_coalesce (token data) (token prevState),
       user = nullish_coalesce_val (user data) (user prevState) \<rparr>"

text \<open>The empty object \<^verbatim>\<open>{}\<close> as a partial auth state.\<close>

definition empty_auth :: HulkAuthStateProps where
  "empty_auth = \<lparr> token = Undefined, user = JUndefined \<rparr>"

section \<open>JSON.parse\<close>

text \<open>
  \<^verbatim>\<open>JSON.parse\<close> is a built-in; it is modelled by a tokenizer and a stack parser for the
  JSON grammar.  \<open>None\<close> stands for the \<^verbatim>\<open>SyntaxError\<close> it throws.  A \<^verbatim>\<open>\uXXXX\<close> escape
  yields the character with that code, taken modulo 256 (characters are bytes here).
\<close>

datatype token =
    TLBrace | TRBrace | TLBrack | TRBrack | TColon | TComma
  | TString string | TNumber string | TTrue | TFalse | TNull

definition is_ws :: "char \<Rightarrow> bool" where
  "is_ws c = (c = CHR '' '' \<or> c = CHR 0x09 \<or> c = CHR 0x0A \<or> c = CHR 0x0D)"

definition is_digit :: "char \<Rightarrow> bool" where
  "is_digit c = (48 \<le> (of_char c :: nat) \<and> (of_char c :: nat) \<le> 57)"

definition is_lower :: "char \<Rightarrow> bool" where
  "is_lower c = (97 \<le> (of_char c :: nat) \<and> (of_char c :: nat) \<le> 122)"

definition is_upper :: "char \<Rightarrow> bool" where
  "is_upper c = (65 \<le> (of_char c :: nat) \<and> (of_char c :: nat) \<le> 90)"

definition is_word_char :: "char \<Rightarrow> bool" where
  "is_word_char c = (is_digit c \<or> is_lower c \<or> is_upper c
      \<or> c = CHR ''+'' \<or> c = CHR ''-'' \<or> c = CHR ''.'')"

definition hex_value :: "char \<Rightarrow> nat option" where
  "hex_value c =
     (if is_digit c then Some (of_char c - 48)
      else if 97 \<le> (of_char c :: nat) \<and> (of_char c :: nat) \<le> 102 then Some (of_char c - 87)
      else if 65 \<le> (of_char c :: nat) \<and> (of_char c :: nat) \<le> 70 then Some (of_char c - 55)
      else None)"

text \<open>The number grammar: \<^verbatim>\<open>-?(0|[1-9][0-9]*)(\.[0-9]+)?([eE][+-]?[0-9]+)?\<close>.\<close>

definition valid_exponent :: "string \<Rightarrow> bool" where
  "valid_exponent s =
     (case s of
        [] \<Rightarrow> True
      | c # r \<Rightarrow>
          (c = CHR ''e'' \<or> c = CHR ''E'') \<and>
          (let d = (case r of [] \<Rightarrow> []
                    | x # r' \<Rightarrow> if x = CHR ''+'' \<or> x = CHR ''-'' then r' else r)
           in d \<noteq> [] \<and> list_all is_digit d))"

definition valid_fraction :: "string \<Rightarrow> bool" where
  "valid_fraction s =
     (case s of
        [] \<Rightarrow> True
      | c # r \<Rightarrow>
          if c = CHR ''.'' then takeWhile is_digit r \<noteq> [] \<and> valid_exponent (dropWhile is_digit r)
          else valid_exponent s)"

definition valid_number :: "string \<Rightarrow> bool" where
  "valid_number s =
     (let u = (case s of [] \<Rightarrow> [] | c # r \<Rightarrow> if c = CHR ''-'' then r else s);
          ds = takeWhile is_digit u
      in ds \<noteq> [] \<and> (length ds = 1 \<or> hd ds \<noteq> CHR ''0'') \<and> valid_fraction (dropWhile is_digit u))"

definition classify_word :: "string \<Rightarrow> token option" where
  "classify_word w =
     (if w = ''true'' then Some TTrue
      else if w = ''false'' then Some TFalse
      else if w = ''null'' then Some TNull
      else if valid_number w then Some (TNumber w)
      else None)"

definition punct :: "char \<Rightarrow> token option" where
  "punct c =
     (if c = CHR ''{'' then Some TLBrace
      else if c = CHR ''}'' then Some TRBrace
      else if c = CHR ''['' then Some TLBrack
      else if c = CHR '']'' then Some TRBrack
      else if c = CHR '':'' then Some TColon
      else if c = CHR '','' then Some TComma
      else None)"

definition escape_char :: "char \<Rightarrow> char option" where
  "escape_char c =
     (if c = CHR 0x22 \<or> c = CHR 0x5C \<or> c = CHR ''/'' then Some c
      else if c = CHR ''b'' then Some (CHR 0x08)
      else if c = CHR ''f'' then Some (CHR 0x0C)
      else if c = CHR ''n'' then Some (CHR 0x0A)
      else if c = CHR ''r'' then Some (CHR 0x0D)
      else if c = CHR ''t'' then Some (CHR 0x09)
      else None)"

datatype lexstate =
    LStart
  | LWord string
  | LStr string
  | LEsc string
  | LUni string "nat list"

definition emit :: "token option \<Rightarrow> token list option \<Rightarrow> token list option" where
  "emit t r = (case t of None \<Rightarrow> None | Some x \<Rightarrow> map_option ((#) x) r)"

text \<open>
  One character at a time.  The accumulators of \<open>LWord\<close> and \<open>LStr\<close> hold the
  characters read so far, latest first.
\<close>

fun lex :: "lexstate \<Rightarrow> string \<Rightarrow> token list option" where
  "lex LStart [] = Some []"
| "lex LStart (c # cs) =
     (if is_ws c then lex LStart cs
      else if c = CHR 0x22 then lex (LStr []) cs
      else if is_word_char c then lex (LWord [c]) cs
      else emit (punct c) (lex LStart cs))"
| "lex (LWord acc) [] = emit (classify_word (rev acc)) (Some [])"
| "lex (LWord acc) (c # cs) =
     (if is_word_char c then lex (LWord (c # acc)) cs
      else if is_ws c then emit (classify_word (rev acc)) (lex LStart cs)
      else if c = CHR 0x22 then emit (classify_word (rev acc)) (lex (LStr []) cs)
      else emit (classify_word (rev acc)) (emit (punct c) (lex LStart cs)))"
| "lex (LStr acc) [] = None"
| "lex (LStr acc) (c # cs) =
     (if c = CHR 0x22 then emit (Some (TString (rev acc))) (lex LStart cs)
      else if c = CHR 0x5C then lex (LEsc acc) cs
      else if of_char c < (32::nat) then None
      else lex (LStr (c # acc)) cs)"
| "lex (LEsc acc) [] = None"
| "lex (LEsc acc) (c # cs) =
     (if c = CHR ''u'' then lex (LUni acc []) cs
      else case escape_char c of None \<Rightarrow> None | Some e \<Rightarrow> lex (LStr (e # acc)) cs)"
| "lex (LUni acc ds) [] = None"
| "lex (LUni acc ds) (c # cs) =
     (case hex_value c of
        None \<Rightarrow> None
      | Some d \<Rightarrow>
          if length ds = 3
          then lex (LStr (char_of (foldl (\<lambda>a x. 16 * a + x) 0 (ds @ [d])) # acc)) cs
          else lex (LUni acc (ds @ [d])) cs)"

text \<open>
  Own properties of a parsed object.  A repeated key keeps its first position and
  takes the last value; \<^verbatim>\<open>Object.entries\<close> lists array-index keys first, in
  ascending numeric order, then the other keys in insertion order.
\<close>

fun set_prop :: "string \<Rightarrow> jsval \<Rightarrow> (string \<times> jsval) list \<Rightarrow> (string \<times> jsval) list" where
  "set_prop k v [] = [(k, v)]"
| "set_prop k v (p # ps) = (if fst p = k then (k, v) # ps else p # set_prop k v ps)"

definition decimal_value :: "string \<Rightarrow> int" where
  "decimal_value s = foldl (\<lambda>a c. 10 * a + (of_char c - 48)) 0 s"

definition is_array_index :: "string \<Rightarrow> bool" where
  "is_array_index k =
     (k \<noteq> [] \<and> list_all is_digit k \<and> (length k = 1 \<or> hd k \<noteq> CHR ''0'')
      \<and> decimal_value k \<le> 4294967294)"

definition own_entries :: "(string \<times> jsval) list \<Rightarrow> (string \<times> jsval) list" where
  "own_entries src =
     (let ps = foldl (\<lambda>acc kv. set_prop (fst kv) (snd kv) acc) [] src
      in sort_key (\<lambda>kv. decimal_value (fst kv)) (filter (\<lambda>kv. is_array_index (fst kv)) ps)
         @ filter (\<lambda>kv. \<not> is_array_index (fst kv)) ps)"

datatype frame = FArr "jsval list" | FObj "(string \<times> jsval) list" | FKey string

datatype pstate =
    SValue | SArrStart | SObjStart | SKey | SColon | SArrNext | SObjNext | SDone jsval

text \<open>A value \<open>v\<close> is complete: attach it to the innermost open container.\<close>

fun complete :: "jsval \<Rightarrow> frame list \<Rightarrow> (pstate \<times> frame list) option" where
  "complete v [] = Some (SDone v, [])"
| "complete v (FArr xs # st) = Some (SArrNext, FArr (v # xs) # st)"
| "complete v (FKey k # FObj ps # st) = Some (SObjNext, FObj ((k, v) # ps) # st)"
| "complete v _ = None"

fun close_array :: "frame list \<Rightarrow> (pstate \<times> frame list) option" where
  "close_array (FArr xs # st) = complete (JArr (rev xs)) st"
| "close_array _ = None"

fun close_object :: "frame list \<Rightarrow> (pstate \<times> frame list) option" where
  "close_object (FObj ps # st) = complete (JObj (own_entries (rev ps))) st"
| "close_object _ = None"

fun start_value :: "token \<Rightarrow> frame list \<Rightarrow> (pstate \<times> frame list) option" where
  "start_value (TString s) st = complete (JStr s) st"
| "start_value (TNumber n) st = complete (JNum n) st"
| "start_value TTrue st = complete (JBool True) st"
| "start_value TFalse st = complete (JBool False) st"
| "start_value TNull st = complete JNull st"
| "start_value TLBrack st = Some (SArrStart, FArr [] # st)"
| "start_value TLBrace st = Some (SObjStart, FObj [] # st)"
| "start_value _ st = None"

fun pstep :: "pstate \<Rightarrow> frame list \<Rightarrow> token \<Rightarrow> (pstate \<times> frame list) option" where
  "pstep SValue st t = start_value t st"
| "pstep SArrStart st t = (if t = TRBrack then close_array st else start_value t st)"
| "pstep SObjStart st t =
     (case t of TString k \<Rightarrow> Some (SColon, FKey k # st) | TRBrace \<Rightarrow> close_object st | _ \<Rightarrow> None)"
| "pstep SKey st t = (case t of TString k \<Rightarrow> Some (SColon, FKey k # st) | _ \<Rightarrow> None)"
| "pstep SColon st t = (if t = TColon then Some (SValue, st) else None)"
| "pstep SArrNext st t =
     (if t = TComma then Some (SValue, st) else if t = TRBrack then close_array st else None)"
| "pstep SObjNext st t =
     (if t = TComma then Some (SKey, st) else if t = TRBrace then close_object st else None)"
| "pstep (SDone v) st t = None"

fun parse_tokens :: "pstate \<Rightarrow> frame list \<Rightarrow> token list \<Rightarrow> jsval option" where
  "parse_tokens (SDone v) st [] = Some v"
| "parse_tokens s st [] = None"
| "parse_tokens s st (t # ts) =
     (case pstep s st t of None \<Rightarrow> None | Some (s', st') \<Rightarrow> parse_tokens s' st' ts)"

definition JSON_parse :: "string \<Rightarrow> jsval option" where
  "JSON_parse text = (case lex LStart text of None \<Rightarrow> None | Some ts \<Rightarrow> parse_tokens SValue [] ts)"

section \<open>Conversions of values\<close>

text \<open>
  What the code observes of a number, given its literal: \<open>num_is_zero\<close> (the number is
  \<^verbatim>\<open>0\<close> or \<^verbatim>\<open>-0\<close>, hence falsy) and \<open>num_to_string\<close> (its rendering by \<^verbatim>\<open>String\<close>).
  Both belong to the language, not to the library; every result below holds for all
  choices of them.
\<close>

record numops =
  num_is_zero :: "string \<Rightarrow> bool"
  num_to_string :: "string \<Rightarrow> string"

text \<open>Truthiness, as \<^verbatim>\<open>||\<close> and \<^verbatim>\<open>? :\<close> test it.\<close>

fun truthy :: "numops \<Rightarrow> jsval \<Rightarrow> bool" where
  "truthy N JUndefined = False"
| "truthy N JNull = False"
| "truthy N (JBool b) = b"
| "truthy N (JNum n) = (\<not> num_is_zero N n)"
| "truthy N (JStr s) = (s \<noteq> [])"
| "truthy N (JArr xs) = True"
| "truthy N (JObj ps) = True"

text \<open>
  \<^verbatim>\<open>String(v)\<close> and the conversion inside a template literal.  An array is joined
  with commas, \<^verbatim>\<open>null\<close> and \<^verbatim>\<open>undefined\<close> elements giving the empty string.  A plain
  object gives \<^verbatim>\<open>[object Object]\<close>, unless it has an own property \<^verbatim>\<open>toString\<close>: a
  parsed value is never callable, so the conversion finds no usable method and throws
  a \<^verbatim>\<open>TypeError\<close>.
\<close>

fun String_js :: "numops \<Rightarrow> jsval \<Rightarrow> exn + string"
  and join_js :: "numops \<Rightarrow> jsval list \<Rightarrow> exn + string" where
  "String_js N JUndefined = Inr ''undefined''"
| "String_js N JNull = Inr ''null''"
| "String_js N (JBool b) = Inr (if b then ''true'' else ''false'')"
| "String_js N (JNum n) = Inr (num_to_string N n)"
| "String_js N (JStr s) = Inr s"
| "String_js N (JArr xs) = join_js N xs"
| "String_js N (JObj ps) =
     (if ''toString'' \<in> set (map fst ps) then Inl TypeError else Inr ''[object Object]'')"
| "join_js N [] = Inr []"
| "join_js N (x # xs) =
     (case (if x = JUndefined \<or> x = JNull then Inr [] else String_js N x) of
        Inl e \<Rightarrow> Inl e
      | Inr s \<Rightarrow>
          if xs = [] then Inr s
          else (case join_js N xs of Inl e \<Rightarrow> Inl e | Inr r \<Rightarrow> Inr (s @ '','' @ r)))"

text \<open>\<^verbatim>\<open>typeof v === "object"\<close>.\<close>

fun typeof_object :: "jsval \<Rightarrow> bool" where
  "typeof_object JNull = True"
| "typeof_object (JArr xs) = True"
| "typeof_object (JObj ps) = True"
| "typeof_object _ = False"

text \<open>
  The property read \<^verbatim>\<open>v.message\<close>: a \<^verbatim>\<open>TypeError\<close> on \<^verbatim>\<open>null\<close> and \<^verbatim>\<open>undefined\<close>, the own
  property of an object, \<^verbatim>\<open>undefined\<close> on everything else.
\<close>

fun get_message :: "jsval \<Rightarrow> exn + jsval" where
  "get_message JUndefined = Inl TypeError"
| "get_message JNull = Inl TypeError"
| "get_message (JObj ps) = Inr (case map_of ps ''message'' of None \<Rightarrow> JUndefined | Some m \<Rightarrow> m)"
| "get_message _ = Inr JUndefined"

text \<open>A \<^verbatim>\<open>map\<close> whose callback may throw: the first exception ends it.\<close>

fun map_exn :: "('a \<Rightarrow> exn + 'b) \<Rightarrow> 'a list \<Rightarrow> exn + 'b list" where
  "map_exn f [] = Inr []"
| "map_exn f (x # xs) =
     (case f x of
        Inl e \<Rightarrow> Inl e
      | Inr y \<Rightarrow> (case map_exn f xs of Inl e \<Rightarrow> Inl e | Inr ys \<Rightarrow> Inr (y # ys)))"

section \<open>Error parsing (helpers.ts)\<close>

text \<open>
  \<^verbatim>\<open>capitalizeFirstLetter\<close>: \<^verbatim>\<open>text.charAt(0).toUpperCase() + text.slice(1)\<close>.
  \<^verbatim>\<open>toUpperCase\<close> is modelled on the ASCII letters; other characters are kept.
\<close>

definition toUpperCase :: "char \<Rightarrow> char" where
  "toUpperCase c = (if is_lower c then char_of (of_char c - (32::nat)) else c)"

fun capitalizeFirstLetter :: "string \<Rightarrow> string" where
  "capitalizeFirstLetter [] = []"
| "capitalizeFirstLetter (c # cs) = toUpperCase c # cs"

text \<open>The expression \<^verbatim>\<open>item.message || String(item)\<close>.\<close>

definition message_or_string :: "numops \<Rightarrow> jsval \<Rightarrow> exn + jsval" where
  "message_or_string N item =
     (case get_message item of
        Inl e \<Rightarrow> Inl e
      | Inr m \<Rightarrow> if truthy N m then Inr m else map_sum id JStr (String_js N item))"

text \<open>
  The callback of the array branch:
  \<^verbatim>\<open>typeof item === "object" ? item.message || String(item) : String(item)\<close>.
  Its result is returned as it is, with no conversion to a string.
\<close>

definition array_item :: "numops \<Rightarrow> jsval \<Rightarrow> exn + jsval" where
  "array_item N item =
     (if typeof_object item then message_or_string N item
      else map_sum id JStr (String_js N item))"

text \<open>
  The template literal of the object branch:
  \<^verbatim>\<open>`${formattedKey ? `${formattedKey}: ` : ""}${item.message || String(item)}`\<close>.
  \<open>formattedKey\<close> is \<open>None\<close> for \<^verbatim>\<open>null\<close>.
\<close>

definition field_line :: "numops \<Rightarrow> string option \<Rightarrow> jsval \<Rightarrow> exn + jsval" where
  "field_line N formattedKey item =
     (let prefix = (case formattedKey of
                      None \<Rightarrow> []
                    | Some k \<Rightarrow> if k \<noteq> [] then k @ '': '' else [])
      in case message_or_string N item of
           Inl e \<Rightarrow> Inl e
         | Inr m \<Rightarrow> map_sum id (\<lambda>s. JStr (prefix @ s)) (String_js N m))"

definition entry_lines :: "numops \<Rightarrow> string \<times> jsval \<Rightarrow> exn + jsval list" where
  "entry_lines N kv =
     (let formattedKey = (if fst kv = ''detail'' then None
                          else Some (capitalizeFirstLetter (fst kv)))
      in case snd kv of
           JArr xs \<Rightarrow> map_exn (field_line N formattedKey) xs
         | value \<Rightarrow> map_sum id (\<lambda>l. [l]) (field_line N formattedKey value))"

text \<open>The body of the \<^verbatim>\<open>try\<close> block of \<^verbatim>\<open>parseErrorText\<close>.\<close>

definition parseErrorText_try :: "numops \<Rightarrow> string \<Rightarrow> exn + jsval list" where
  "parseErrorText_try N errorText =
     (case JSON_parse errorText of
        None \<Rightarrow> Inl SyntaxError
      | Some parsed \<Rightarrow>
          (case parsed of
             JArr xs \<Rightarrow> map_exn (array_item N) xs
           | JObj ps \<Rightarrow> map_sum id concat (map_exn (entry_lines N) ps)
           | _ \<Rightarrow> map_sum id (\<lambda>s. [JStr s]) (String_js N parsed)))"

text \<open>\<^verbatim>\<open>parseErrorText\<close>: the \<^verbatim>\<open>catch\<close> block returns \<^verbatim>\<open>[errorText]\<close>.\<close>

definition parseErrorText :: "numops \<Rightarrow> string \<Rightarrow> jsval list" where
  "parseErrorText N errorText =
     (case parseErrorText_try N errorText of
        Inl e \<Rightarrow> [JStr errorText]
      | Inr lines \<Rightarrow> lines)"

text \<open>
  \<^verbatim>\<open>hulkFetchErrorParser\<close>.  \<^verbatim>\<open>HulkFetchErrorProps = { message; code; details? }\<close>.
  A \<^verbatim>\<open>Response\<close> is modelled by its status, status text and body; \<^verbatim>\<open>ok\<close> is the status
  range 200 to 299.  The body of a response can be read once: \<^verbatim>\<open>text()\<close> and \<^verbatim>\<open>json()\<close>
  reject with a \<^verbatim>\<open>TypeError\<close> when \<open>bodyUsed\<close> is set, and set it.
\<close>

record Response =
  status :: nat
  statusText :: string
  bodyText :: string
  bodyUsed :: bool

definition ok :: "Response \<Rightarrow> bool" where
  "ok r = (200 \<le> status r \<and> status r \<le> 299)"

record HulkFetchErrorProps =
  message :: string
  code :: nat
  details :: "jsval list option"

definition hulkFetchErrorParser :: "numops \<Rightarrow> Response \<Rightarrow> exn + HulkFetchErrorProps option" where
  "hulkFetchErrorParser N response =
     (if bodyUsed response then Inl TypeError
      else if ok response then Inr None
      else Inr (Some \<lparr> message = (if statusText response \<noteq> [] then statusText response
                                     else ''An error occurred''),
                        code = status response,
                        details = Some (parseErrorText N (bodyText response)) \<rparr>))"

section \<open>Fetch dispatcher (hooks.ts)\<close>

text \<open>
  A property of an options object is absent, present with the value \<^verbatim>\<open>undefined\<close>, or
  present with a value.  \<^verbatim>\<open>HulkFetchProps\<close> keeps the fields the dispatcher reads or
  writes (\<open>req_method\<close> is its \<^verbatim>\<open>method\<close> field); headers are a record from names to
  values.  The query parameters only change the URL handed to \<^verbatim>\<open>fetch\<close> and are left
  out.
\<close>

datatype 'a opt_prop = Absent | Undef | Has 'a

type_synonym headers = "string \<rightharpoonup> string"

record HulkFetchProps =
  req_method :: "string opt_prop"
  headers :: "headers opt_prop"
  body :: "string opt_prop"
  clearThreshold :: "bool opt_prop"

text \<open>The spread \<^verbatim>\<open>...h\<close> of a headers value: nothing when it is absent or undefined.\<close>

fun spread :: "headers opt_prop \<Rightarrow> headers" where
  "spread (Has h) = h"
| "spread _ = Map.empty"

text \<open>The property \<^verbatim>\<open>k\<close> of \<^verbatim>\<open>{ k: base, ...init }\<close>: an own property of \<^verbatim>\<open>init\<close> wins.\<close>

fun overlay :: "'a opt_prop \<Rightarrow> 'a opt_prop \<Rightarrow> 'a opt_prop" where
  "overlay base Absent = base"
| "overlay base p = p"

datatype phase = Start | End

datatype cb_source = PerHook | Global

datatype event =
    OnPending cb_source phase
  | OnError cb_source "HulkFetchErrorProps option"
  | OnSuccess cb_source jsval
  | Fetch string HulkFetchProps
  | Redirect string

text \<open>
  One hook instance, as the closure of \<^verbatim>\<open>dispatch\<close> sees it.  \<open>auth_token\<close> is
  \<^verbatim>\<open>hulk.auth.state.token\<close>: the context value is captured when the component renders,
  and the recursive call of \<^verbatim>\<open>dispatch\<close> runs in the same closure.  \<open>url\<close> is the result
  of \<^verbatim>\<open>new URL(input, baseUrl)\<close>, \<open>None\<close> when the constructor throws.  \<open>fetch\<close> gives
  the outcome of the n-th network call of the hook, \<open>None\<close> when the call throws;
  \<open>accessTokenRetriever\<close>, when configured, gives the outcome of its n-th invocation.
  The three callbacks are configured or not, per hook and globally; they and the
  redirect helper are observers and return normally.
\<close>

record hook =
  defaultHeaders :: "headers option"
  unauthorizedRedirectUrl :: "string option"
  errorParser :: "(Response \<Rightarrow> exn + HulkFetchErrorProps option) option"
  accessTokenRetriever :: "(nat \<Rightarrow> exn + TokenProps option) option"
  global_onPending :: bool
  global_onError :: bool
  global_onSuccess :: bool
  options_onPending :: bool
  options_onError :: bool
  options_onSuccess :: bool
  auth_token :: "TokenProps nullable"
  pathname :: string
  url :: "string option"
  fetch :: "nat \<Rightarrow> Response option"

text \<open>
  What a dispatch changes: the retry counter of the hook, the auth state held by the
  provider, the hook's \<open>data\<close>, the calls made to collaborators, in order, and the
  numbers of network calls and of refresh calls made so far.
\<close>

record dstate =
  threshold :: nat
  authStore :: HulkAuthStateProps
  data :: jsval
  trace :: "event list"
  fetchCalls :: nat
  refreshCalls :: nat

definition maxThreshold :: nat where
  "maxThreshold = 5"

text \<open>\<^verbatim>\<open>(options?.onX ?? hulk.fetchGlobalOptions?.onX)?.(...)\<close>.\<close>

definition notify :: "bool \<Rightarrow> bool \<Rightarrow> (cb_source \<Rightarrow> event) \<Rightarrow> dstate \<Rightarrow> dstate" where
  "notify per_hook global ev s =
     (if per_hook then s\<lparr> trace := trace s @ [ev PerHook] \<rparr>
      else if global then s\<lparr> trace := trace s @ [ev Global] \<rparr>
      else s)"

definition onPending :: "hook \<Rightarrow> phase \<Rightarrow> dstate \<Rightarrow> dstate" where
  "onPending hk ph s = notify (options_onPending hk) (global_onPending hk) (\<lambda>c. OnPending c ph) s"

definition onError :: "hook \<Rightarrow> HulkFetchErrorProps option \<Rightarrow> dstate \<Rightarrow> dstate" where
  "onError hk err s = notify (options_onError hk) (global_onError hk) (\<lambda>c. OnError c err) s"

definition onSuccess :: "hook \<Rightarrow> jsval \<Rightarrow> dstate \<Rightarrow> dstate" where
  "onSuccess hk v s = notify (options_onSuccess hk) (global_onSuccess hk) (\<lambda>c. OnSuccess c v) s"

text \<open>
  The first statement of \<^verbatim>\<open>dispatch\<close>:
  \<^verbatim>\<open>init = { method: 'GET', headers: { ...defaultHeaders, ...init.headers }, ...init }\<close>.
\<close>

definition merge_init :: "hook \<Rightarrow> HulkFetchProps \<Rightarrow> HulkFetchProps" where
  "merge_init hk init =
     \<lparr> req_method = overlay (Has ''GET'') (req_method init),
       headers = overlay
         (Has ((case defaultHeaders hk of None \<Rightarrow> Map.empty | Some d \<Rightarrow> d) ++ spread (headers init)))
         (headers init),
       body = body init,
       clearThreshold = clearThreshold init \<rparr>"

text \<open>\<^verbatim>\<open>init.headers = { ...init.headers, authorization: `Bearer ${t.access_token}` }\<close>.\<close>

definition with_authorization :: "TokenProps \<Rightarrow> HulkFetchProps \<Rightarrow> HulkFetchProps" where
  "with_authorization t init =
     init\<lparr> headers := Has ((spread (headers init))(''authorization'' \<mapsto> ''Bearer '' @ access_token t)) \<rparr>"

definition attach_token :: "hook \<Rightarrow> HulkFetchProps \<Rightarrow> HulkFetchProps" where
  "attach_token hk init =
     (case auth_token hk of Val t \<Rightarrow> with_authorization t init | _ \<Rightarrow> init)"

text \<open>The response built in the \<^verbatim>\<open>catch\<close> block around \<^verbatim>\<open>fetch\<close>.\<close>

definition mockResponse :: Response where
  "mockResponse = \<lparr> status = 500, statusText = ''Network Error'',
     bodyText = ''Network error, please try again later.'', bodyUsed = False \<rparr>"

text \<open>
  \<^verbatim>\<open>errorParser ? await errorParser(response) : fallback\<close>, then \<^verbatim>\<open>onError\<close>; a parser that
  rejects makes \<^verbatim>\<open>dispatch\<close> reject.
\<close>

definition parse_error ::
  "hook \<Rightarrow> Response \<Rightarrow> HulkFetchErrorProps \<Rightarrow> exn + HulkFetchErrorProps option" where
  "parse_error hk response fallback =
     (case errorParser hk of None \<Rightarrow> Inr (Some fallback) | Some p \<Rightarrow> p response)"

datatype outcome = Resolved | Rejected exn

datatype step = Done outcome dstate | Retry HulkFetchProps dstate

definition report_error :: "hook \<Rightarrow> Response \<Rightarrow> HulkFetchErrorProps \<Rightarrow> dstate \<Rightarrow> outcome \<times> dstate" where
  "report_error hk response fallback s =
     (case parse_error hk response fallback of
        Inl e \<Rightarrow> (Rejected e, s)
      | Inr err \<Rightarrow> (Resolved, onError hk err s))"

text \<open>The redirect at the end of the branch that gives up.\<close>

definition redirect_unauthorized :: "hook \<Rightarrow> dstate \<Rightarrow> dstate" where
  "redirect_unauthorized hk s =
     (case unauthorizedRedirectUrl hk of
        None \<Rightarrow> s
      | Some target \<Rightarrow>
          if pathname hk \<noteq> [] \<and> target \<noteq> [] \<and> pathname hk \<noteq> target
          then s\<lparr> trace := trace s @ [Redirect (target @ ''?code=401&next='' @ pathname hk)] \<rparr>
          else s)"

text \<open>
  The branch taken when the refresh gave no credential or \<^verbatim>\<open>validateThreshold()\<close> is
  false: \<^verbatim>\<open>hulk.auth.update({ token: undefined, user: undefined })\<close>, the end of the
  pending state, the error report, the redirect.
\<close>

definition give_up :: "hook \<Rightarrow> Response \<Rightarrow> dstate \<Rightarrow> outcome \<times> dstate" where
  "give_up hk response s =
     (let s1 = s\<lparr> authStore := update \<lparr> token = Undefined, user = JUndefined \<rparr> (authStore s) \<rparr>;
          s2 = onPending hk End s1
      in case parse_error hk response \<lparr> message = ''Unauthorized'', code = status response,
                                         details = None \<rparr> of
           Inl e \<Rightarrow> (Rejected e, s2)
         | Inr err \<Rightarrow> (Resolved, redirect_unauthorized hk (onError hk err s2)))"

text \<open>A branch that ends the call, with its outcome and state.\<close>

definition finish :: "outcome \<times> dstate \<Rightarrow> step" where
  "finish r = Done (fst r) (snd r)"

text \<open>
  \<^verbatim>\<open>validateThreshold\<close>: whether a retry is allowed; the counter is incremented when it
  is.
\<close>

definition validateThreshold :: "dstate \<Rightarrow> bool \<times> dstate" where
  "validateThreshold s =
     (if threshold s \<ge> maxThreshold then (False, s)
      else (True, s\<lparr> threshold := threshold s + 1 \<rparr>))"

text \<open>
  The branch for 401 and 403 with a retriever configured.  \<^verbatim>\<open>validateThreshold()\<close> is
  called only when the retriever gave a credential.
\<close>

definition unauthorized ::
  "hook \<Rightarrow> (nat \<Rightarrow> exn + TokenProps option) \<Rightarrow> HulkFetchProps \<Rightarrow> Response \<Rightarrow> dstate \<Rightarrow> step" where
  "unauthorized hk retriever init response s =
     (let s1 = s\<lparr> refreshCalls := refreshCalls s + 1 \<rparr>
      in case retriever (refreshCalls s) of
           Inl e \<Rightarrow> Done (Rejected e) s1
         | Inr None \<Rightarrow> finish (give_up hk response s1)
         | Inr (Some accessResponse) \<Rightarrow>
             (case validateThreshold s1 of
                (allowed, s2) \<Rightarrow>
                  if \<not> allowed then finish (give_up hk response s2)
                  else Retry
                    (init\<lparr> clearThreshold := Has False,
                           headers := Has ((spread (headers init))
                             (''authorization'' \<mapsto> ''Bearer '' @ access_token accessResponse)) \<rparr>)
                    (s2\<lparr> authStore := update \<lparr> token = Val accessResponse, user = JUndefined \<rparr>
                                         (authStore s2) \<rparr>)))"

text \<open>The last two branches: another status outside 200 to 299, and success.\<close>

definition http_error :: "hook \<Rightarrow> Response \<Rightarrow> dstate \<Rightarrow> outcome \<times> dstate" where
  "http_error hk response s =
     (if bodyUsed response then (Rejected TypeError, s)
      else report_error hk (response\<lparr> bodyUsed := True \<rparr>)
             \<lparr> message = (if statusText response \<noteq> [] then statusText response
                          else ''An error occurred''),
               code = status response, details = None \<rparr>
             (onPending hk End s))"

definition success :: "hook \<Rightarrow> Response \<Rightarrow> dstate \<Rightarrow> outcome \<times> dstate" where
  "success hk response s =
     (if bodyUsed response then (Rejected TypeError, s)
      else case JSON_parse (bodyText response) of
             None \<Rightarrow> (Rejected SyntaxError, s)
           | Some result \<Rightarrow> (Resolved, onSuccess hk result (onPending hk End (s\<lparr> data := result \<rparr>))))"

text \<open>\<^verbatim>\<open>if (init?.clearThreshold) threshold = 0\<close>, and the call \<^verbatim>\<open>fetch(url, init)\<close>.\<close>

definition reset_threshold :: "HulkFetchProps \<Rightarrow> dstate \<Rightarrow> dstate" where
  "reset_threshold init s = (if clearThreshold init = Has True then s\<lparr> threshold := 0 \<rparr> else s)"

definition issue_fetch :: "string \<Rightarrow> HulkFetchProps \<Rightarrow> dstate \<Rightarrow> dstate" where
  "issue_fetch u init s = s\<lparr> trace := trace s @ [Fetch u init], fetchCalls := fetchCalls s + 1 \<rparr>"

text \<open>One pass through the body of \<^verbatim>\<open>dispatch\<close>, up to its recursive call.\<close>

definition dispatch_attempt :: "hook \<Rightarrow> HulkFetchProps \<Rightarrow> dstate \<Rightarrow> step" where
  "dispatch_attempt hk init0 s0 =
     (let init1 = merge_init hk init0;
          s2 = onPending hk Start (reset_threshold init1 s0)
      in case url hk of
           None \<Rightarrow> Done (Rejected TypeError) s2
         | Some u \<Rightarrow>
             let init = attach_token hk init1;
                 s3 = issue_fetch u init s2
             in case fetch hk (fetchCalls s2) of
                  None \<Rightarrow>
                    finish (report_error hk mockResponse
                              \<lparr> message = ''Network error'', code = 500, details = None \<rparr>
                              (onPending hk End s3))
                | Some response \<Rightarrow>
                    if (status response = 401 \<or> status response = 403)
                       \<and> accessTokenRetriever hk \<noteq> None
                    then unauthorized hk (the (accessTokenRetriever hk)) init response s3
                    else if \<not> ok response
                    then finish (http_error hk response s3)
                    else finish (success hk response s3))"

text \<open>The state in which an attempt ends, whether it retries or not.\<close>

definition state_after :: "step \<Rightarrow> dstate" where
  "state_after st = (case st of Done out s' \<Rightarrow> s' | Retry i' s' \<Rightarrow> s')"

text \<open>
  \<^verbatim>\<open>dispatch\<close>.  The recursive call passes the merged \<^verbatim>\<open>init\<close> with \<^verbatim>\<open>clearThreshold\<close>
  false and the new authorization header.
\<close>

function dispatch :: "hook \<Rightarrow> HulkFetchProps \<Rightarrow> dstate \<Rightarrow> outcome \<times> dstate" where
  "dispatch hk init s =
     (case dispatch_attempt hk init s of
        Done out s' \<Rightarrow> (out, s')
      | Retry init' s' \<Rightarrow> dispatch hk init' s')"
  by pat_completeness auto
termination
proof (relation "measure (\<lambda>(hk, init, s).
          if clearThreshold init = Has True then maxThreshold + 1 else maxThreshold - threshold s)")
  show "wf (measure (\<lambda>(hk, init, s).
          if clearThreshold init = Has True then maxThreshold + 1 else maxThreshold - threshold s))"
    by simp
next
  fix hk :: hook and init :: HulkFetchProps and s :: dstate and init' s'
  assume "dispatch_attempt hk init s = Retry init' s'"
  then show "((hk, init', s'), (hk, init, s)) \<in> measure (\<lambda>(hk, init, s).
          if clearThreshold init = Has True then maxThreshold + 1 else maxThreshold - threshold s)"
    by (auto simp: dispatch_attempt_def unauthorized_def validateThreshold_def merge_init_def
          onPending_def notify_def
          reset_threshold_def issue_fetch_def finish_def Let_def maxThreshold_def
          split: option.splits if_splits sum.splits)
qed

text \<open>The state of a hook that has not dispatched yet.\<close>

definition fresh :: "HulkAuthStateProps \<Rightarrow> dstate" where
  "fresh auth = \<lparr> threshold = 0, authStore = auth, data = JUndefined, trace = [],
                  fetchCalls = 0, refreshCalls = 0 \<rparr>"

text \<open>What a trace says about the network calls and the redirects.\<close>

fun fetch_inits :: "event list \<Rightarrow> HulkFetchProps list" where
  "fetch_inits [] = []"
| "fetch_inits (Fetch u i # es) = i # fetch_inits es"
| "fetch_inits (e # es) = fetch_inits es"

fun redirects :: "event list \<Rightarrow> string list" where
  "redirects [] = []"
| "redirects (Redirect u # es) = u # redirects es"
| "redirects (e # es) = redirects es"

fun errors_reported :: "event list \<Rightarrow> HulkFetchErrorProps option list" where
  "errors_reported [] = []"
| "errors_reported (OnError c e # es) = e # errors_reported es"
| "errors_reported (e # es) = errors_reported es"

text \<open>The header \<open>k\<close> of a request, \<open>None\<close> when the request has no such header.\<close>

definition header :: "string \<Rightarrow> HulkFetchProps \<Rightarrow> string option" where
  "header k init = spread (headers init) k"

subsection \<open>Scenarios\<close>

text \<open>
  A configuration like the one of the repository's tests: default headers with a content
  type, the login page as redirect target, a retriever that resolves to the credential
  \<^verbatim>\<open>new\<close>, the global callbacks, no per-hook callbacks, no credential in the auth
  state, the current path \<^verbatim>\<open>/dashboard\<close>.  The first network call answers 401, the
  later ones 200 with the body \<^verbatim>\<open>{"ok":true}\<close>.
\<close>

definition response_of :: "nat \<Rightarrow> string \<Rightarrow> string \<Rightarrow> Response" where
  "response_of st stText b = \<lparr> status = st, statusText = stText, bodyText = b, bodyUsed = False \<rparr>"

definition demo_hook :: hook where
  "demo_hook =
     \<lparr> defaultHeaders = Some [''Content-Type'' \<mapsto> ''application/json''],
       unauthorizedRedirectUrl = Some ''/login'',
       errorParser = None,
       accessTokenRetriever = Some (\<lambda>n. Inr (Some \<lparr> access_token = ''new'' \<rparr>)),
       global_onPending = True,
       global_onError = True,
       global_onSuccess = True,
       options_onPending = False,
       options_onError = False,
       options_onSuccess = False,
       auth_token = Undefined,
       pathname = ''/dashboard'',
       url = Some ''https://api.test.com/test'',
       fetch = (\<lambda>n. if n = 0 then Some (response_of 401 ''Unauthorized'' ''Unauthorized'')
                     else Some (response_of 200 ''OK'' ''{\"ok\":true}'')) \<rparr>"

text \<open>The call \<^verbatim>\<open>dispatch()\<close>: the parameter defaults to the empty object.\<close>

definition no_overrides :: HulkFetchProps where
  "no_overrides = \<lparr> req_method = Absent, headers = Absent, body = Absent, clearThreshold = Absent \<rparr>"

definition old_token :: TokenProps where
  "old_token = \<lparr> access_token = ''old'' \<rparr>"

definition signed_in :: HulkAuthStateProps where
  "signed_in = \<lparr> token = Val old_token, user = JStr ''jane'' \<rparr>"

text \<open>The same configuration with a server that always answers 401.\<close>

definition always_unauthorized :: hook where
  "always_unauthorized =
     demo_hook\<lparr> fetch := (\<lambda>n. Some (response_of 401 ''Unauthorized'' ''Unauthorized'')) \<rparr>"

text \<open>The same, with a retriever that resolves to no credential.\<close>

definition refresh_fails :: hook where
  "refresh_fails = always_unauthorized\<lparr> accessTokenRetriever := Some (\<lambda>n. Inr None) \<rparr>"

text \<open>A server that answers 200 at once, with a JSON body and with a body that is no JSON.\<close>

definition answers_ok :: hook where
  "answers_ok = demo_hook\<lparr> fetch := (\<lambda>n. Some (response_of 200 ''OK'' ''{\"ok\":true}'')) \<rparr>"


text \<open>The call \<^verbatim>\<open>dispatch({ headers: { 'X-Request-Id': '1' } })\<close>.\<close>

definition custom_header :: HulkFetchProps where
  "custom_header = no_overrides\<lparr> headers := Has [''X-Request-Id'' \<mapsto> ''1''] \<rparr>"

section \<open>Alerts (hooks.ts)\<close>

text \<open>
  The document is a tree of elements.  An element has an id (empty when it has none),
  a content of its own and child elements.  The content is text, or a React root that
  renders an element (the rendering itself happens later and is not modelled).  An
  element of the document is referred to by its path from the root: the list of child
  positions that leads to it.
\<close>

datatype content = Text string | Root string

datatype element = Element (elem_id: string) (content: content) (childNodes: "element list")

text \<open>
  \<^verbatim>\<open>document.getElementById\<close>: the first element in tree order with that id; the empty
  string finds nothing.  \<open>first_with_id i ks n\<close> searches the elements \<open>ks\<close>, which are
  at the positions \<open>n\<close>, \<open>n + 1\<close>, ... of their parent.
\<close>

fun find_id :: "string \<Rightarrow> element \<Rightarrow> nat list option"
  and first_with_id :: "string \<Rightarrow> element list \<Rightarrow> nat \<Rightarrow> nat list option" where
  "find_id i (Element j c ks) = (if j = i then Some [] else first_with_id i ks 0)"
| "first_with_id i [] n = None"
| "first_with_id i (k # ks) n =
     (case find_id i k of Some p \<Rightarrow> Some (n # p) | None \<Rightarrow> first_with_id i ks (Suc n))"

definition getElementById :: "element \<Rightarrow> string \<Rightarrow> nat list option" where
  "getElementById doc i = (if i = [] then None else find_id i doc)"

text \<open>All the elements of a tree with a given id, in tree order.\<close>

fun elements_with_id :: "string \<Rightarrow> element \<Rightarrow> element list" where
  "elements_with_id i (Element j c ks) =
     (if j = i then [Element j c ks] else []) @ concat (map (elements_with_id i) ks)"

text \<open>The element at a path, and a change made to the element at a path.\<close>

fun node_at :: "nat list \<Rightarrow> element \<Rightarrow> element option" where
  "node_at [] e = Some e"
| "node_at (n # p) (Element j c ks) = (if n < length ks then node_at p (ks ! n) else None)"

fun modify_at :: "nat list \<Rightarrow> (element \<Rightarrow> element) \<Rightarrow> element \<Rightarrow> element" where
  "modify_at [] f e = f e"
| "modify_at (n # p) f (Element j c ks) =
     Element j c (if n < length ks then ks[n := modify_at p f (ks ! n)] else ks)"

text \<open>\<^verbatim>\<open>target.contains(other)\<close>: \<open>other\<close> is \<open>target\<close> or one of its descendants.\<close>

definition contains :: "nat list \<Rightarrow> nat list \<Rightarrow> bool" where
  "contains target other = (take (length target) other = target)"

text \<open>
  \<^verbatim>\<open>target.removeChild(child)\<close> throws a \<^verbatim>\<open>NotFoundError\<close> unless \<open>child\<close> is a child of
  \<open>target\<close>; \<^verbatim>\<open>target.appendChild(e)\<close> adds \<open>e\<close> after the last child.
\<close>

fun without_child :: "nat \<Rightarrow> element \<Rightarrow> element" where
  "without_child n (Element j c ks) = Element j c (take n ks @ drop (Suc n) ks)"

fun with_child :: "element \<Rightarrow> element \<Rightarrow> element" where
  "with_child e (Element j c ks) = Element j c (ks @ [e])"

definition removeChild :: "nat list \<Rightarrow> nat list \<Rightarrow> element \<Rightarrow> exn + element" where
  "removeChild target child doc =
     (if child \<noteq> [] \<and> butlast child = target
      then Inr (modify_at target (without_child (last child)) doc)
      else Inl NotFoundError)"

definition appendChild :: "nat list \<Rightarrow> element \<Rightarrow> element \<Rightarrow> element" where
  "appendChild target e doc = modify_at target (with_child e) doc"

text \<open>
  A \<^verbatim>\<open>ReactNode\<close>, by what \<^verbatim>\<open>push\<close> observes of it: a string; a number, with whether it is
  falsy (zero or NaN) and its \<^verbatim>\<open>toString()\<close>; a React element; \<^verbatim>\<open>true\<close> (any other
  truthy node is treated like it); or one of the falsy values \<^verbatim>\<open>false\<close>, \<^verbatim>\<open>null\<close>,
  \<^verbatim>\<open>undefined\<close>.
\<close>

datatype ReactNode =
    RString string
  | RNumber bool string
  | RElement string
  | RTrue
  | RFalse
  | RNull
  | RUndefined

fun node_truthy :: "ReactNode \<Rightarrow> bool" where
  "node_truthy (RString s) = (s \<noteq> [])"
| "node_truthy (RNumber falsy s) = (\<not> falsy)"
| "node_truthy (RElement e) = True"
| "node_truthy RTrue = True"
| "node_truthy _ = False"

text \<open>
  The content given to the new \<^verbatim>\<open>div\<close>: the text of a string or a number, a React root
  for an element, nothing otherwise.
\<close>

fun node_content :: "ReactNode \<Rightarrow> content" where
  "node_content (RString s) = Text s"
| "node_content (RNumber falsy s) = Text s"
| "node_content (RElement e) = Root e"
| "node_content _ = Text []"

record HulkAlertGlobalOptionsProps =
  global_targetId :: string
  replaceDuplicates :: bool

record HulkAlertOptionsProps =
  targetId :: "string option"
  alertId :: string

text \<open>
  \<^verbatim>\<open>alertOptions.targetId ? getElementById(alertOptions.targetId)
     : getElementById(hulk.alertGlobalOptions.targetId)\<close>.
\<close>

definition resolve_target ::
  "HulkAlertGlobalOptionsProps \<Rightarrow> HulkAlertOptionsProps \<Rightarrow> element \<Rightarrow> nat list option" where
  "resolve_target G alertOptions doc =
     (case targetId alertOptions of
        None \<Rightarrow> getElementById doc (global_targetId G)
      | Some t \<Rightarrow> if t \<noteq> [] then getElementById doc t else getElementById doc (global_targetId G))"

text \<open>The removal of an existing alert with the same id, when duplicates are replaced.\<close>

definition remove_duplicate ::
  "HulkAlertGlobalOptionsProps \<Rightarrow> HulkAlertOptionsProps \<Rightarrow> nat list \<Rightarrow> element \<Rightarrow> exn + element" where
  "remove_duplicate G alertOptions target doc =
     (if replaceDuplicates G
      then (case getElementById doc (alertId alertOptions) of
              None \<Rightarrow> Inr doc
            | Some existingAlert \<Rightarrow>
                if contains target existingAlert then removeChild target existingAlert doc
                else Inr doc)
      else Inr doc)"

text \<open>\<^verbatim>\<open>push\<close>: the document after the call, or the exception it throws.\<close>

definition push ::
  "HulkAlertGlobalOptionsProps \<Rightarrow> ReactNode \<Rightarrow> HulkAlertOptionsProps \<Rightarrow> element \<Rightarrow> exn + element" where
  "push G node alertOptions doc =
     (case resolve_target G alertOptions doc of
        None \<Rightarrow> Inr doc
      | Some target \<Rightarrow>
          if \<not> node_truthy node then Inr doc
          else (case remove_duplicate G alertOptions target doc of
                  Inl e \<Rightarrow> Inl e
                | Inr doc1 \<Rightarrow>
                    Inr (appendChild target
                           (Element (alertId alertOptions) (node_content node) []) doc1)))"

text \<open>Two calls of \<^verbatim>\<open>push\<close> with the same options, one after the other.\<close>

definition push_twice ::
  "HulkAlertGlobalOptionsProps \<Rightarrow> ReactNode \<Rightarrow> ReactNode \<Rightarrow> HulkAlertOptionsProps \<Rightarrow> element
     \<Rightarrow> exn + element" where
  "push_twice G first second alertOptions doc =
     (case push G first alertOptions doc of
        Inl e \<Rightarrow> Inl e
      | Inr doc1 \<Rightarrow> push G second alertOptions doc1)"

text \<open>The alerts with a given id that an element holds among its children.\<close>

definition alerts_in :: "string \<Rightarrow> element \<Rightarrow> element list" where
  "alerts_in i container = filter (\<lambda>k. elem_id k = i) (childNodes container)"

text \<open>
  The document holds at most one element with the id \<open>i\<close>, and that element, if there
  is one, is a child of the element at the path \<open>target\<close>.
\<close>

definition at_most_one_alert :: "string \<Rightarrow> nat list \<Rightarrow> element \<Rightarrow> bool" where
  "at_most_one_alert i target doc =
     (length (elements_with_id i doc) \<le> 1
      \<and> (case find_id i doc of None \<Rightarrow> True | Some p \<Rightarrow> p \<noteq> [] \<and> butlast p = target))"

text \<open>The number of elements of a tree with a given id.\<close>

definition count_id :: "string \<Rightarrow> element \<Rightarrow> nat" where
  "count_id i e = length (elements_with_id i e)"

subsection \<open>Scenarios\<close>

text \<open>
  A page with two alert containers, the first of which already shows an alert with the
  id \<^verbatim>\<open>error\<close>; and the same page with the first container empty.
\<close>

definition replace_config :: HulkAlertGlobalOptionsProps where
  "replace_config = \<lparr> global_targetId = ''alerts'', replaceDuplicates = True \<rparr>"

definition two_containers :: element where
  "two_containers =
     Element ''page'' (Text [])
       [Element ''form-alerts'' (Text []) [Element ''error'' (Text ''Name is required'') []],
        Element ''alerts'' (Text []) []]"

definition empty_containers :: element where
  "empty_containers =
     Element ''page'' (Text [])
       [Element ''form-alerts'' (Text []) [], Element ''alerts'' (Text []) []]"

definition error_alert :: HulkAlertOptionsProps where
  "error_alert = \<lparr> targetId = None, alertId = ''error'' \<rparr>"

section \<open>Properties of the auth state\<close>

text \<open>
  C7: for every auth state S and every partial update U, update merges: the resulting
  token is U.token unless that is undefined or null, in which case it is S.token, and
  likewise for user; update of the empty object leaves the state unchanged.
\<close>

theorem update_merges:
  "token (update U S) = (if token U = Undefined \<or> token U = Null then token S else token U)
   \<and> user (update U S) = (if user U = JUndefined \<or> user U = JNull then user S else user U)
   \<and> token (update U S) = nullish_coalesce (token U) (token S)
   \<and> user (update U S) = nullish_coalesce_val (user U) (user S)
   \<and> update empty_auth S = S"
proof -
  have t: "nullish_coalesce a b = (if a = Undefined \<or> a = Null then b else a)"
    for a b :: "TokenProps nullable"
    by (cases a) simp_all
  have u: "nullish_coalesce_val a b = (if a = JUndefined \<or> a = JNull then b else a)"
    for a b
    by (cases a) simp_all
  show ?thesis
    by (simp add: update_def empty_auth_def t u)
qed

theorem update_merges_witness:
  "token (update \<lparr> token = Undefined, user = JStr ''jane'' \<rparr>
                 \<lparr> token = Val \<lparr> access_token = ''t1'' \<rparr>, user = JNull \<rparr>)
     = Val \<lparr> access_token = ''t1'' \<rparr>
   \<and> user (update \<lparr> token = Undefined, user = JStr ''jane'' \<rparr>
                 \<lparr> token = Val \<lparr> access_token = ''t1'' \<rparr>, user = JNull \<rparr>)
     = JStr ''jane''
   \<and> update empty_auth \<lparr> token = Val \<lparr> access_token = ''t1'' \<rparr>, user = JNull \<rparr>
     = \<lparr> token = Val \<lparr> access_token = ''t1'' \<rparr>, user = JNull \<rparr>"
  using update_merges [of "\<lparr> token = Undefined, user = JStr ''jane'' \<rparr>"
      "\<lparr> token = Val \<lparr> access_token = ''t1'' \<rparr>, user = JNull \<rparr>"]
  by simp

section \<open>Properties of the error parser\<close>

text \<open>
  C8: parseErrorText maps the JSON array ["E1","E2"] to the two strings E1 and E2, the
  object {"detail":"D"} to the single string D (no prefix for the key detail), the
  object {"field":["F1","F2"]} to "Field: F1" and "Field: F2" (one line per element,
  prefixed by the capitalized key and a colon), and the text "not json", which is not
  valid JSON, to the single-element list holding that text.
\<close>

theorem parseErrorText_round_trip:
  "parseErrorText N ''[\"E1\",\"E2\"]'' = [JStr ''E1'', JStr ''E2'']
   \<and> parseErrorText N ''{\"detail\":\"D\"}'' = [JStr ''D'']
   \<and> parseErrorText N ''{\"field\":[\"F1\",\"F2\"]}'' = [JStr ''Field: F1'', JStr ''Field: F2'']
   \<and> JSON_parse ''not json'' = None
   \<and> parseErrorText N ''not json'' = [JStr ''not json'']"
proof -
  have a: "parseErrorText N ''[\"E1\",\"E2\"]'' = [JStr ''E1'', JStr ''E2'']"
    by code_simp
  have b: "parseErrorText N ''{\"detail\":\"D\"}'' = [JStr ''D'']"
    by code_simp
  have c: "parseErrorText N ''{\"field\":[\"F1\",\"F2\"]}'' = [JStr ''Field: F1'', JStr ''Field: F2'']"
    by code_simp
  have d: "JSON_parse ''not json'' = None"
    by code_simp
  have e: "parseErrorText N ''not json'' = [JStr ''not json'']"
    by code_simp
  from a b c d e show ?thesis by blast
qed

theorem parseErrorText_round_trip_witness:
  "parseErrorText \<lparr> num_is_zero = (\<lambda>n. n = ''0''), num_to_string = id \<rparr> ''{\"detail\":\"D\"}''
     = [JStr ''D'']"
  using parseErrorText_round_trip [of "\<lparr> num_is_zero = (\<lambda>n. n = ''0''), num_to_string = id \<rparr>"]
  by simp

text \<open>
  Whatever the \<^verbatim>\<open>try\<close> block throws, the result is the raw text; so the function
  returns a list on every input.
\<close>

lemma parseErrorText_catch:
  "parseErrorText_try N errorText = Inl e \<Longrightarrow> parseErrorText N errorText = [JStr errorText]"
  by (simp add: parseErrorText_def)

lemma parseErrorText_total:
  "parseErrorText N errorText = [JStr errorText]
   \<or> parseErrorText_try N errorText = Inr (parseErrorText N errorText)"
  by (cases "parseErrorText_try N errorText") (simp_all add: parseErrorText_def)

text \<open>
  A \<^verbatim>\<open>null\<close> element of an array has \<^verbatim>\<open>typeof\<close> "object"; reading its \<^verbatim>\<open>message\<close>
  throws, and the raw text comes back.
\<close>

lemma parseErrorText_null_element:
  "parseErrorText_try N ''[null]'' = Inl TypeError
   \<and> parseErrorText N ''[null]'' = [JStr ''[null]'']"
proof -
  have a: "parseErrorText_try N ''[null]'' = Inl TypeError"
    by code_simp
  show ?thesis
    using a parseErrorText_catch [OF a] by simp
qed

text \<open>
  C10 (the code at the failing input): the array branch returns a truthy
  \<^verbatim>\<open>message\<close> property as it is.  For the text [{"message":true}] the result is the
  list holding the boolean \<^verbatim>\<open>true\<close>, which is not a string.
\<close>

theorem parseErrorText_message_not_string:
  "parseErrorText N ''[{\"message\":true}]'' = [JBool True]"
  by code_simp

section \<open>Properties of the dispatcher\<close>

subsection \<open>What each step leaves unchanged\<close>

text \<open>The events a callback call appends to the trace.\<close>

definition emitted :: "bool \<Rightarrow> bool \<Rightarrow> (cb_source \<Rightarrow> event) \<Rightarrow> event list" where
  "emitted a b ev = (if a then [ev PerHook] else if b then [ev Global] else [])"

lemma notify_fields:
  "threshold (notify a b ev s) = threshold s"
  "authStore (notify a b ev s) = authStore s"
  "data (notify a b ev s) = data s"
  "fetchCalls (notify a b ev s) = fetchCalls s"
  "refreshCalls (notify a b ev s) = refreshCalls s"
  "trace (notify a b ev s) = trace s @ emitted a b ev"
  by (simp_all add: notify_def emitted_def)

lemma onPending_fields:
  "threshold (onPending hk ph s) = threshold s"
  "authStore (onPending hk ph s) = authStore s"
  "data (onPending hk ph s) = data s"
  "fetchCalls (onPending hk ph s) = fetchCalls s"
  "refreshCalls (onPending hk ph s) = refreshCalls s"
  "trace (onPending hk ph s)
     = trace s @ emitted (options_onPending hk) (global_onPending hk) (\<lambda>c. OnPending c ph)"
  by (simp_all add: onPending_def notify_fields)

lemma onError_fields:
  "threshold (onError hk err s) = threshold s"
  "authStore (onError hk err s) = authStore s"
  "data (onError hk err s) = data s"
  "fetchCalls (onError hk err s) = fetchCalls s"
  "refreshCalls (onError hk err s) = refreshCalls s"
  "trace (onError hk err s)
     = trace s @ emitted (options_onError hk) (global_onError hk) (\<lambda>c. OnError c err)"
  by (simp_all add: onError_def notify_fields)

lemma onSuccess_fields:
  "threshold (onSuccess hk v s) = threshold s"
  "authStore (onSuccess hk v s) = authStore s"
  "data (onSuccess hk v s) = data s"
  "fetchCalls (onSuccess hk v s) = fetchCalls s"
  "refreshCalls (onSuccess hk v s) = refreshCalls s"
  "trace (onSuccess hk v s)
     = trace s @ emitted (options_onSuccess hk) (global_onSuccess hk) (\<lambda>c. OnSuccess c v)"
  by (simp_all add: onSuccess_def notify_fields)

lemmas callback_fields = onPending_fields onError_fields onSuccess_fields

lemma update_nothing: "update \<lparr> token = Undefined, user = JUndefined \<rparr> st = st"
  by (simp add: update_def)

lemma redirect_fields:
  "threshold (redirect_unauthorized hk s) = threshold s"
  "authStore (redirect_unauthorized hk s) = authStore s"
  "data (redirect_unauthorized hk s) = data s"
  "fetchCalls (redirect_unauthorized hk s) = fetchCalls s"
  "refreshCalls (redirect_unauthorized hk s) = refreshCalls s"
  by (simp_all add: redirect_unauthorized_def split: option.splits)

lemma report_error_fields:
  "threshold (snd (report_error hk r fb s)) = threshold s"
  "authStore (snd (report_error hk r fb s)) = authStore s"
  "data (snd (report_error hk r fb s)) = data s"
  "fetchCalls (snd (report_error hk r fb s)) = fetchCalls s"
  "refreshCalls (snd (report_error hk r fb s)) = refreshCalls s"
  by (simp_all add: report_error_def callback_fields split: sum.splits)

lemma give_up_fields:
  "threshold (snd (give_up hk r s)) = threshold s"
  "authStore (snd (give_up hk r s)) = authStore s"
  "data (snd (give_up hk r s)) = data s"
  "fetchCalls (snd (give_up hk r s)) = fetchCalls s"
  "refreshCalls (snd (give_up hk r s)) = refreshCalls s"
  by (simp_all add: give_up_def Let_def update_nothing callback_fields redirect_fields split: sum.splits)

lemma http_error_fields:
  "threshold (snd (http_error hk r s)) = threshold s"
  "authStore (snd (http_error hk r s)) = authStore s"
  "data (snd (http_error hk r s)) = data s"
  "fetchCalls (snd (http_error hk r s)) = fetchCalls s"
  "refreshCalls (snd (http_error hk r s)) = refreshCalls s"
  by (simp_all add: http_error_def report_error_fields callback_fields)

lemma success_fields:
  "threshold (snd (success hk r s)) = threshold s"
  "authStore (snd (success hk r s)) = authStore s"
  "fetchCalls (snd (success hk r s)) = fetchCalls s"
  "refreshCalls (snd (success hk r s)) = refreshCalls s"
  by (simp_all add: success_def callback_fields split: option.splits)

lemma reset_threshold_fields:
  "threshold (reset_threshold init s) = (if clearThreshold init = Has True then 0 else threshold s)"
  "authStore (reset_threshold init s) = authStore s"
  "data (reset_threshold init s) = data s"
  "fetchCalls (reset_threshold init s) = fetchCalls s"
  "refreshCalls (reset_threshold init s) = refreshCalls s"
  "trace (reset_threshold init s) = trace s"
  by (simp_all add: reset_threshold_def)

lemma issue_fetch_fields:
  "threshold (issue_fetch u i s) = threshold s"
  "authStore (issue_fetch u i s) = authStore s"
  "data (issue_fetch u i s) = data s"
  "fetchCalls (issue_fetch u i s) = fetchCalls s + 1"
  "refreshCalls (issue_fetch u i s) = refreshCalls s"
  "trace (issue_fetch u i s) = trace s @ [Fetch u i]"
  by (simp_all add: issue_fetch_def)

lemma merge_init_clearThreshold: "clearThreshold (merge_init hk init) = clearThreshold init"
  by (simp add: merge_init_def)

lemma unauthorized_Retry:
  assumes "unauthorized hk f init r s = Retry init' s'"
  shows "clearThreshold init' = Has False"
    and "fetchCalls s' = fetchCalls s"
    and "threshold s' = threshold s + 1"
    and "threshold s < maxThreshold"
  using assms
  by (auto simp: unauthorized_def validateThreshold_def Let_def finish_def
        split: sum.splits option.splits if_splits)

lemma unauthorized_Done:
  assumes "unauthorized hk f init r s = Done out s'"
  shows "fetchCalls s' = fetchCalls s"
  using assms
  by (auto simp: unauthorized_def validateThreshold_def Let_def finish_def give_up_fields
        split: sum.splits option.splits if_splits)

lemma attempt_Retry:
  assumes "dispatch_attempt hk init s = Retry init' s'"
  shows "clearThreshold init' = Has False"
    and "fetchCalls s' = fetchCalls s + 1"
    and "threshold s' = (if clearThreshold init = Has True then 0 else threshold s) + 1"
    and "(if clearThreshold init = Has True then 0 else threshold s) < maxThreshold"
proof -
  from assms obtain u f r i where
    "unauthorized hk f i r (issue_fetch u i (onPending hk Start (reset_threshold (merge_init hk init) s))) = Retry init' s'"
    by (auto simp: dispatch_attempt_def Let_def finish_def split: option.splits if_splits)
  note R = unauthorized_Retry [OF this]
  show "clearThreshold init' = Has False" by (rule R(1))
  show "fetchCalls s' = fetchCalls s + 1"
    using R(2) by (simp add: issue_fetch_fields reset_threshold_fields callback_fields)
  show "threshold s' = (if clearThreshold init = Has True then 0 else threshold s) + 1"
    using R(3) by (simp add: issue_fetch_fields reset_threshold_fields callback_fields merge_init_clearThreshold)
  show "(if clearThreshold init = Has True then 0 else threshold s) < maxThreshold"
    using R(4) by (simp add: issue_fetch_fields reset_threshold_fields callback_fields merge_init_clearThreshold)
qed

lemma attempt_Done_calls:
  assumes "dispatch_attempt hk init s = Done out s'"
  shows "fetchCalls s' \<le> fetchCalls s + 1"
proof (cases "url hk")
  case None
  with assms show ?thesis
    by (auto simp: dispatch_attempt_def Let_def reset_threshold_fields callback_fields)
next
  case (Some u)
  with assms show ?thesis
    by (auto simp: dispatch_attempt_def Let_def finish_def reset_threshold_fields callback_fields issue_fetch_fields
          report_error_fields http_error_fields success_fields callback_fields
          dest!: unauthorized_Done
          split: option.splits if_splits)
qed

lemma dispatch_calls_bound:
  "fetchCalls (snd (dispatch hk init s))
     \<le> fetchCalls s + 1 + (maxThreshold - (if clearThreshold init = Has True then 0 else threshold s))"
proof (induction hk init s rule: dispatch.induct)
  case (1 hk init s)
  show ?case
  proof (cases "dispatch_attempt hk init s")
    case (Done out s')
    then show ?thesis
      using attempt_Done_calls [OF Done] by (subst dispatch.simps) simp
  next
    case (Retry init' s')
    note f = attempt_Retry [OF Retry]
    have "fetchCalls (snd (dispatch hk init' s')) \<le> fetchCalls s' + 1 + (maxThreshold - threshold s')"
      using "1.IH" [OF Retry] f(1) by simp
    then show ?thesis
      using f Retry by (subst dispatch.simps) (simp split: if_splits)
  qed
qed


lemma redirects_append: "redirects (xs @ ys) = redirects xs @ redirects ys"
  by (induction xs rule: redirects.induct) simp_all

lemma fetch_inits_append: "fetch_inits (xs @ ys) = fetch_inits xs @ fetch_inits ys"
  by (induction xs rule: fetch_inits.induct) simp_all

lemma errors_reported_append: "errors_reported (xs @ ys) = errors_reported xs @ errors_reported ys"
  by (induction xs rule: errors_reported.induct) simp_all

lemma errors_reported_emitted:
  "errors_reported (emitted a b (\<lambda>c. OnPending c ph)) = []"
  "errors_reported (emitted a b (\<lambda>c. OnSuccess c v)) = []"
  "errors_reported (emitted a b (\<lambda>c. OnError c err)) = (if a \<or> b then [err] else [])"
  by (simp_all add: emitted_def)

lemma redirects_emitted:
  "redirects (emitted a b (\<lambda>c. OnPending c ph)) = []"
  "redirects (emitted a b (\<lambda>c. OnSuccess c v)) = []"
  "redirects (emitted a b (\<lambda>c. OnError c err)) = []"
  by (simp_all add: emitted_def)

lemma redirect_trace:
  "trace (redirect_unauthorized hk s) = trace s @
     (case unauthorizedRedirectUrl hk of
        None \<Rightarrow> []
      | Some target \<Rightarrow>
          if pathname hk \<noteq> [] \<and> target \<noteq> [] \<and> pathname hk \<noteq> target
          then [Redirect (target @ ''?code=401&next='' @ pathname hk)] else [])"
  by (simp add: redirect_unauthorized_def split: option.splits)

lemma errors_reported_redirect:
  "errors_reported (trace (redirect_unauthorized hk s)) = errors_reported (trace s)"
  by (simp add: redirect_trace errors_reported_append split: option.splits)

lemma give_up_resolved:
  assumes "parse_error hk r \<lparr> message = ''Unauthorized'', code = status r, details = None \<rparr> = Inr err"
  shows "give_up hk r s = (Resolved, redirect_unauthorized hk (onError hk err (onPending hk End s)))"
  using assms by (simp add: give_up_def Let_def update_nothing)

lemma give_up_outcome:
  assumes "parse_error hk r \<lparr> message = ''Unauthorized'', code = status r, details = None \<rparr> = Inr err"
  shows "fst (give_up hk r s) = Resolved"
  by (simp add: give_up_resolved [OF assms])

lemma give_up_errors:
  assumes "parse_error hk r \<lparr> message = ''Unauthorized'', code = status r, details = None \<rparr> = Inr err"
  shows "errors_reported (trace (snd (give_up hk r s)))
           = errors_reported (trace s) @ (if options_onError hk \<or> global_onError hk then [err] else [])"
  by (simp add: give_up_resolved [OF assms] errors_reported_redirect callback_fields
        errors_reported_append errors_reported_emitted)

lemma attempt_unauthorized:
  assumes "url hk = Some u" and "fetch hk (fetchCalls s) = Some r"
    and "status r = 401 \<or> status r = 403" and "accessTokenRetriever hk = Some f"
  shows "dispatch_attempt hk init s =
           unauthorized hk f (attach_token hk (merge_init hk init)) r
             (issue_fetch u (attach_token hk (merge_init hk init))
                (onPending hk Start (reset_threshold (merge_init hk init) s)))"
  using assms by (auto simp: dispatch_attempt_def Let_def callback_fields reset_threshold_fields)

lemma attempt_Retry_errors:
  assumes "dispatch_attempt hk init s = Retry init' s'"
  shows "errors_reported (trace s') = errors_reported (trace s)"
proof -
  from assms obtain u f r i where
    *: "unauthorized hk f i r (issue_fetch u i (onPending hk Start (reset_threshold (merge_init hk init) s))) = Retry init' s'"
    by (auto simp: dispatch_attempt_def Let_def finish_def split: option.splits if_splits)
  then have "trace s' = trace (issue_fetch u i (onPending hk Start (reset_threshold (merge_init hk init) s)))"
    by (auto simp: unauthorized_def validateThreshold_def Let_def finish_def
        split: sum.splits option.splits if_splits)
  then show ?thesis
    by (simp add: issue_fetch_fields callback_fields reset_threshold_fields
          errors_reported_append errors_reported_emitted)
qed

text \<open>
  When every network call answers 401 or 403 and every refresh gives a credential, the
  dispatcher retries until the counter reaches \<open>maxThreshold\<close> and then gives up.
\<close>

lemma all_unauthorized:
  assumes u: "url hk = Some u"
    and retr: "accessTokenRetriever hk = Some f"
    and succ: "\<forall>n. \<exists>t. f n = Inr (Some t)"
    and unauth: "\<forall>n. \<exists>r. fetch hk n = Some r \<and> (status r = 401 \<or> status r = 403)"
    and parser: "\<forall>n r. fetch hk n = Some r \<longrightarrow>
        (\<exists>err. parse_error hk r \<lparr> message = ''Unauthorized'', code = status r, details = None \<rparr> = Inr err)"
    and t0: "(if clearThreshold init = Has True then 0 else threshold s) \<le> maxThreshold"
  shows "fst (dispatch hk init s) = Resolved
     \<and> fetchCalls (snd (dispatch hk init s))
         = fetchCalls s + (maxThreshold - (if clearThreshold init = Has True then 0 else threshold s)) + 1
     \<and> threshold (snd (dispatch hk init s)) = maxThreshold
     \<and> length (errors_reported (trace (snd (dispatch hk init s))))
         = length (errors_reported (trace s)) + (if options_onError hk \<or> global_onError hk then 1 else 0)"
  using assms
proof (induction hk init s rule: dispatch.induct)
  case (1 hk init s)
  note u = "1.prems"(1) and retr = "1.prems"(2) and succ = "1.prems"(3)
    and unauth = "1.prems"(4) and parser = "1.prems"(5)
  define t where "t = (if clearThreshold init = Has True then 0 else threshold s)"
  obtain r where r: "fetch hk (fetchCalls s) = Some r" "status r = 401 \<or> status r = 403"
    using unauth by blast
  obtain tok where tok: "f (refreshCalls s) = Inr (Some tok)"
    using succ by blast
  obtain err where err: "parse_error hk r \<lparr> message = ''Unauthorized'', code = status r, details = None \<rparr> = Inr err"
    using parser r(1) by blast
  note A = attempt_unauthorized [OF u r retr, of init]
  show ?case
  proof (cases "t < maxThreshold")
    case True
    then obtain init' s' where R: "dispatch_attempt hk init s = Retry init' s'"
      using tok by (simp add: A unauthorized_def validateThreshold_def Let_def issue_fetch_fields
          callback_fields
          reset_threshold_fields merge_init_clearThreshold t_def)
    note F = attempt_Retry [OF R] attempt_Retry_errors [OF R]
    have "(if clearThreshold init' = Has True then 0 else threshold s') \<le> maxThreshold"
      using F True by (simp add: t_def)
    note IH = "1.IH" [OF R u retr succ unauth parser this]
    show ?thesis
      using IH F R True by (subst (1 2 3 4) dispatch.simps) (simp add: t_def)
  next
    case False
    with "1.prems"(6) have t: "t = maxThreshold" by (simp add: t_def)
    have D: "dispatch_attempt hk init s = finish (give_up hk r
          ((issue_fetch u (attach_token hk (merge_init hk init))
                (onPending hk Start (reset_threshold (merge_init hk init) s)))\<lparr> refreshCalls := refreshCalls s + 1 \<rparr>))"
      using tok t by (simp add: A unauthorized_def validateThreshold_def Let_def issue_fetch_fields
          callback_fields
          reset_threshold_fields merge_init_clearThreshold t_def)
    show ?thesis
      using t
      by (subst (1 2 3 4) dispatch.simps)
        (simp add: D finish_def give_up_outcome [OF err] give_up_errors [OF err] give_up_fields
          issue_fetch_fields callback_fields reset_threshold_fields merge_init_clearThreshold
          errors_reported_append errors_reported_emitted t_def)
  qed
qed

text \<open>
  C1: starting from a fresh retry counter, when every network call answers 401 or 403
  and the refresh collaborator always resolves to a new credential, one call to dispatch
  makes maxThreshold + 1 = 6 network calls, then stops: it resolves, with the counter at
  maxThreshold and the failure reported by one call of the effective onError callback.
\<close>

theorem dispatch_retry_bound:
  assumes "threshold s = 0"
    and "url hk = Some u"
    and "accessTokenRetriever hk = Some f"
    and "\<forall>n. \<exists>t. f n = Inr (Some t)"
    and "\<forall>n. \<exists>r. fetch hk n = Some r \<and> (status r = 401 \<or> status r = 403)"
    and "\<forall>n r. fetch hk n = Some r \<longrightarrow>
        (\<exists>err. parse_error hk r \<lparr> message = ''Unauthorized'', code = status r, details = None \<rparr> = Inr err)"
  shows "fetchCalls (snd (dispatch hk init s)) = fetchCalls s + maxThreshold + 1
     \<and> maxThreshold + 1 = 6
     \<and> fst (dispatch hk init s) = Resolved
     \<and> threshold (snd (dispatch hk init s)) = maxThreshold
     \<and> length (errors_reported (trace (snd (dispatch hk init s))))
         = length (errors_reported (trace s)) + (if options_onError hk \<or> global_onError hk then 1 else 0)"
proof -
  have t0: "(if clearThreshold init = Has True then 0 else threshold s) \<le> maxThreshold"
    using assms(1) by simp
  have z: "(if clearThreshold init = Has True then 0 else threshold s) = 0"
    using assms(1) by simp
  show ?thesis
    using all_unauthorized [OF assms(2-6) t0] unfolding z
    by (simp add: maxThreshold_def)
qed

theorem dispatch_retry_bound_witness:
  "fetchCalls (snd (dispatch always_unauthorized no_overrides (fresh empty_auth))) = 6
   \<and> fst (dispatch always_unauthorized no_overrides (fresh empty_auth)) = Resolved
   \<and> threshold (snd (dispatch always_unauthorized no_overrides (fresh empty_auth))) = 5
   \<and> length (errors_reported (trace (snd (dispatch always_unauthorized no_overrides (fresh empty_auth))))) = 1"
  using dispatch_retry_bound [of "fresh empty_auth" always_unauthorized
      "''https://api.test.com/test''" "\<lambda>n. Inr (Some \<lparr> access_token = ''new'' \<rparr>)" no_overrides]
  by (simp add: always_unauthorized_def demo_hook_def fresh_def response_of_def parse_error_def
        maxThreshold_def)

subsection \<open>The branch that gives up\<close>

text \<open>
  C5 (the code at the failing input): the auth state holds the credential \<^verbatim>\<open>old\<close> and
  the user \<^verbatim>\<open>jane\<close>, the server answers 401 and the refresh gives no credential.  The
  dispatcher gives up (it resolves and redirects to the login page), and the auth state
  still holds the credential and the user: \<^verbatim>\<open>update\<close> keeps a field when the new value
  is \<^verbatim>\<open>undefined\<close>.
\<close>

theorem dispatch_give_up_keeps_auth:
  "fst (dispatch (refresh_fails\<lparr> auth_token := Val old_token \<rparr>) no_overrides (fresh signed_in))
     = Resolved
   \<and> authStore (snd (dispatch (refresh_fails\<lparr> auth_token := Val old_token \<rparr>) no_overrides
         (fresh signed_in)))
     = \<lparr> token = Val \<lparr> access_token = ''old'' \<rparr>, user = JStr ''jane'' \<rparr>
   \<and> redirects (trace (snd (dispatch (refresh_fails\<lparr> auth_token := Val old_token \<rparr>) no_overrides
         (fresh signed_in))))
     = [''/login?code=401&next=/dashboard'']"
  by code_simp

lemma give_up_redirects:
  assumes "parse_error hk r \<lparr> message = ''Unauthorized'', code = status r, details = None \<rparr> = Inr err"
  shows "redirects (trace (snd (give_up hk r s))) = redirects (trace s) @
     (case unauthorizedRedirectUrl hk of
        None \<Rightarrow> []
      | Some target \<Rightarrow>
          if pathname hk \<noteq> [] \<and> target \<noteq> [] \<and> pathname hk \<noteq> target
          then [target @ ''?code=401&next='' @ pathname hk] else [])"
  by (simp add: give_up_resolved [OF assms] redirect_trace callback_fields redirects_append
        redirects_emitted split: option.splits)

text \<open>
  C6: when a network call answers 401 or 403 and the refresh either gives no credential
  or gives one with the retry counter exhausted, the dispatcher (its error parser, if
  any, resolving) calls the redirect helper at most once, with the argument
  "<unauthorizedRedirectUrl>?code=401&next=<current path>"; it calls it exactly when a
  non-empty redirect target is configured and the current path is non-empty and differs
  from the target.  With the path /dashboard and the target /login the argument is
  "/login?code=401&next=/dashboard"; with the path /login there is no redirect.
\<close>

theorem give_up_redirects_once:
  assumes u: "url hk = Some u"
    and r: "fetch hk (fetchCalls s) = Some r"
    and st: "status r = 401 \<or> status r = 403"
    and retr: "accessTokenRetriever hk = Some f"
    and failed: "f (refreshCalls s) = Inr None
        \<or> (\<exists>t. f (refreshCalls s) = Inr (Some t)
              \<and> clearThreshold init \<noteq> Has True \<and> maxThreshold \<le> threshold s)"
    and parser: "parse_error hk r \<lparr> message = ''Unauthorized'', code = status r, details = None \<rparr> = Inr err"
  shows "fst (dispatch hk init s) = Resolved
     \<and> redirects (trace (snd (dispatch hk init s))) = redirects (trace s) @
         (case unauthorizedRedirectUrl hk of
            None \<Rightarrow> []
          | Some target \<Rightarrow>
              if pathname hk \<noteq> [] \<and> target \<noteq> [] \<and> pathname hk \<noteq> target
              then [target @ ''?code=401&next='' @ pathname hk] else [])"
proof -
  let ?i = "attach_token hk (merge_init hk init)"
  let ?s3 = "issue_fetch u ?i (onPending hk Start (reset_threshold (merge_init hk init) s))"
  have D: "dispatch_attempt hk init s = finish (give_up hk r (?s3\<lparr> refreshCalls := refreshCalls s + 1 \<rparr>))"
    using failed
    by (auto simp: attempt_unauthorized [OF u r st retr] unauthorized_def validateThreshold_def
          Let_def issue_fetch_fields
          callback_fields reset_threshold_fields merge_init_clearThreshold)
  have T: "redirects (trace ?s3) = redirects (trace s)"
    by (simp add: issue_fetch_fields callback_fields reset_threshold_fields redirects_append
          redirects_emitted)
  show ?thesis
    by (subst (1 2) dispatch.simps)
      (simp add: D finish_def give_up_outcome [OF parser] give_up_redirects [OF parser] T)
qed

theorem give_up_redirects_once_witness:
  "redirects (trace (snd (dispatch refresh_fails no_overrides (fresh empty_auth))))
     = [''/login?code=401&next=/dashboard'']
   \<and> redirects (trace (snd (dispatch (refresh_fails\<lparr> pathname := ''/login'' \<rparr>) no_overrides
         (fresh empty_auth))))
     = []"
  using give_up_redirects_once [of refresh_fails "''https://api.test.com/test''" "fresh empty_auth"
      "response_of 401 ''Unauthorized'' ''Unauthorized''" "\<lambda>n. Inr None" no_overrides
      "Some \<lparr> message = ''Unauthorized'', code = 401, details = None \<rparr>"]
    give_up_redirects_once [of "refresh_fails\<lparr> pathname := ''/login'' \<rparr>"
      "''https://api.test.com/test''" "fresh empty_auth"
      "response_of 401 ''Unauthorized'' ''Unauthorized''" "\<lambda>n. Inr None" no_overrides
      "Some \<lparr> message = ''Unauthorized'', code = 401, details = None \<rparr>"]
  by (simp add: refresh_fails_def always_unauthorized_def demo_hook_def fresh_def response_of_def
        parse_error_def)

subsection \<open>The headers of a request\<close>

text \<open>
  The headers handed to \<^verbatim>\<open>fetch\<close>.  When the caller passes headers they replace the
  merged ones, since \<^verbatim>\<open>...init\<close> comes last in the object literal; the default headers
  reach the request only when the caller passes none.  The authorization header is set
  last, from the credential of the auth state.
\<close>

lemma request_headers:
  "spread (headers (attach_token hk (merge_init hk init)))
     = (let sent = (case headers init of
                      Absent \<Rightarrow> (case defaultHeaders hk of None \<Rightarrow> Map.empty | Some d \<Rightarrow> d)
                    | Undef \<Rightarrow> Map.empty
                    | Has h \<Rightarrow> h)
        in case auth_token hk of
             Val t \<Rightarrow> sent(''authorization'' \<mapsto> ''Bearer '' @ access_token t)
           | _ \<Rightarrow> sent)"
  by (simp add: attach_token_def with_authorization_def merge_init_def Let_def
        split: nullable.splits opt_prop.splits)

lemma authorization_injected:
  "auth_token hk = Val t \<Longrightarrow>
     header ''authorization'' (attach_token hk (merge_init hk init))
       = Some (''Bearer '' @ access_token t)"
  by (simp add: header_def attach_token_def with_authorization_def)

text \<open>The requests that a call adds to the trace.\<close>

lemma fetch_inits_emitted:
  "fetch_inits (emitted a b (\<lambda>c. OnPending c ph)) = []"
  "fetch_inits (emitted a b (\<lambda>c. OnSuccess c v)) = []"
  "fetch_inits (emitted a b (\<lambda>c. OnError c err)) = []"
  by (simp_all add: emitted_def)

lemma fetch_inits_redirect:
  "fetch_inits (trace (redirect_unauthorized hk s)) = fetch_inits (trace s)"
  by (simp add: redirect_trace fetch_inits_append split: option.splits)

lemma fetch_inits_report_error:
  "fetch_inits (trace (snd (report_error hk r fb s))) = fetch_inits (trace s)"
  by (simp add: report_error_def callback_fields fetch_inits_append fetch_inits_emitted
        split: sum.splits)

lemma fetch_inits_give_up:
  "fetch_inits (trace (snd (give_up hk r s))) = fetch_inits (trace s)"
  by (simp add: give_up_def Let_def callback_fields fetch_inits_append fetch_inits_emitted
        fetch_inits_redirect split: sum.splits)

lemma fetch_inits_http_error:
  "fetch_inits (trace (snd (http_error hk r s))) = fetch_inits (trace s)"
  by (simp add: http_error_def fetch_inits_report_error callback_fields fetch_inits_append
        fetch_inits_emitted)

lemma fetch_inits_success:
  "fetch_inits (trace (snd (success hk r s))) = fetch_inits (trace s)"
  by (simp add: success_def callback_fields fetch_inits_append fetch_inits_emitted
        split: option.splits)

lemma fetch_inits_unauthorized:
  "fetch_inits (trace (case unauthorized hk f i r s of Done out s' \<Rightarrow> s' | Retry i' s' \<Rightarrow> s'))
     = fetch_inits (trace s)"
  by (simp add: unauthorized_def validateThreshold_def Let_def finish_def fetch_inits_give_up
        split: sum.splits option.splits)


lemma attempt_requests:
  "fetch_inits (trace (state_after (dispatch_attempt hk init s)))
     = fetch_inits (trace s)
       @ (case url hk of None \<Rightarrow> [] | Some u \<Rightarrow> [attach_token hk (merge_init hk init)])"
proof (cases "url hk")
  case None
  then show ?thesis
    by (simp add: state_after_def dispatch_attempt_def Let_def callback_fields
          reset_threshold_fields fetch_inits_append fetch_inits_emitted)
next
  case (Some u)
  let ?i = "attach_token hk (merge_init hk init)"
  let ?s3 = "issue_fetch u ?i (onPending hk Start (reset_threshold (merge_init hk init) s))"
  have s3: "fetch_inits (trace ?s3) = fetch_inits (trace s) @ [?i]"
    by (simp add: issue_fetch_fields callback_fields reset_threshold_fields fetch_inits_append
          fetch_inits_emitted)
  have "fetch_inits (trace (state_after (dispatch_attempt hk init s))) = fetch_inits (trace ?s3)"
    using Some fetch_inits_unauthorized [of hk "the (accessTokenRetriever hk)" ?i _ ?s3]
    by (simp add: state_after_def dispatch_attempt_def Let_def finish_def callback_fields
          reset_threshold_fields fetch_inits_report_error fetch_inits_http_error
          fetch_inits_success fetch_inits_append fetch_inits_emitted split: option.splits)
  with s3 Some show ?thesis by simp
qed

lemma dispatch_first_request:
  assumes "url hk = Some u"
  shows "\<exists>rest. fetch_inits (trace (snd (dispatch hk init s)))
           = fetch_inits (trace s) @ attach_token hk (merge_init hk init) # rest"
proof (cases "dispatch_attempt hk init s")
  case (Done out s')
  with attempt_requests [of hk init s] assms show ?thesis
    by (subst dispatch.simps) (simp add: state_after_def)
next
  case (Retry init' s')
  have mono: "\<exists>more. fetch_inits (trace (snd (dispatch hk i t))) = fetch_inits (trace t) @ more"
    for i t
  proof (induction hk i t rule: dispatch.induct)
    case (1 hk i t)
    show ?case
    proof (cases "dispatch_attempt hk i t")
      case (Done out t')
      with attempt_requests [of hk i t] show ?thesis
        by (subst dispatch.simps) (simp add: state_after_def)
    next
      case (Retry i' t')
      from "1.IH" [OF Retry] obtain more where
        "fetch_inits (trace (snd (dispatch hk i' t'))) = fetch_inits (trace t') @ more" by blast
      with attempt_requests [of hk i t] Retry show ?thesis
        by (subst dispatch.simps) (simp add: state_after_def)
    qed
  qed
  from mono [of init' s'] obtain more where
    "fetch_inits (trace (snd (dispatch hk init' s'))) = fetch_inits (trace s') @ more" by blast
  with attempt_requests [of hk init s] Retry assms show ?thesis
    by (subst dispatch.simps) (simp add: state_after_def)
qed

text \<open>
  Every request of a call carries the credential that the auth state held when the
  component rendered, also the retries made after a refresh.
\<close>

lemma dispatch_requests_carry_captured_token:
  assumes "auth_token hk = Val t"
  shows "\<exists>new. fetch_inits (trace (snd (dispatch hk init s))) = fetch_inits (trace s) @ new
           \<and> (\<forall>i \<in> set new. header ''authorization'' i = Some (''Bearer '' @ access_token t))"
  using assms
proof (induction hk init s rule: dispatch.induct)
  case (1 hk init s)
  note tok = authorization_injected [OF "1.prems", of init]
  show ?case
  proof (cases "dispatch_attempt hk init s")
    case (Done out s')
    with attempt_requests [of hk init s] tok show ?thesis
      by (subst dispatch.simps) (simp add: state_after_def split: option.splits)
  next
    case (Retry init' s')
    from "1.IH" [OF Retry "1.prems"] obtain new where
      new: "fetch_inits (trace (snd (dispatch hk init' s'))) = fetch_inits (trace s') @ new"
        "\<forall>i \<in> set new. header ''authorization'' i = Some (''Bearer '' @ access_token t)"
      by blast
    from attempt_requests [of hk init s] Retry
    have "fetch_inits (trace s') = fetch_inits (trace s)
       @ (case url hk of None \<Rightarrow> [] | Some u \<Rightarrow> [attach_token hk (merge_init hk init)])"
      by (simp add: state_after_def)
    with new tok show ?thesis
      by (subst dispatch.simps) (auto simp: Retry split: option.splits)
  qed
qed

text \<open>
  C3 (the code at the failing input): the default headers hold a content type and the
  caller passes the header X-Request-Id.  The merge of the two layers has both headers;
  the request that is sent has the caller's header and no content type.
\<close>

theorem dispatch_drops_default_headers:
  "map (header ''Content-Type'')
     (fetch_inits (trace (snd (dispatch answers_ok custom_header (fresh empty_auth))))) = [None]
   \<and> map (header ''X-Request-Id'')
     (fetch_inits (trace (snd (dispatch answers_ok custom_header (fresh empty_auth))))) = [Some ''1'']
   \<and> (the (defaultHeaders answers_ok) ++ spread (headers custom_header)) ''Content-Type''
     = Some ''application/json''"
  by code_simp

subsection \<open>Refresh and retry\<close>

text \<open>
  With no credential in the auth state at render time, the retry carries the new
  credential, has \<^verbatim>\<open>clearThreshold\<close> false, and its answer becomes the hook's data.
\<close>

lemma dispatch_refresh_and_retry:
  "map (header ''authorization'')
     (fetch_inits (trace (snd (dispatch demo_hook no_overrides (fresh empty_auth)))))
     = [None, Some ''Bearer new'']
   \<and> map clearThreshold (fetch_inits (trace (snd (dispatch demo_hook no_overrides (fresh empty_auth)))))
     = [Absent, Has False]
   \<and> fetchCalls (snd (dispatch demo_hook no_overrides (fresh empty_auth))) = 2
   \<and> data (snd (dispatch demo_hook no_overrides (fresh empty_auth))) = JObj [(''ok'', JBool True)]
   \<and> fst (dispatch demo_hook no_overrides (fresh empty_auth)) = Resolved"
  by code_simp

text \<open>
  C2 (the code at the failing input): the auth state holds the credential \<^verbatim>\<open>old\<close> when
  the component renders, the first call answers 401 and the refresh resolves to the
  credential \<^verbatim>\<open>new\<close>.  The retry is made in the same closure, where the auth state still
  holds \<^verbatim>\<open>old\<close>; the credential attachment overwrites the header set for the retry, and
  the second request carries "Bearer old" although the provider now holds \<^verbatim>\<open>new\<close>.
\<close>

theorem dispatch_retry_header_stale:
  "map (header ''authorization'')
     (fetch_inits (trace (snd (dispatch (demo_hook\<lparr> auth_token := Val old_token \<rparr>) no_overrides
        (fresh signed_in)))))
     = [Some ''Bearer old'', Some ''Bearer old'']
   \<and> token (authStore (snd (dispatch (demo_hook\<lparr> auth_token := Val old_token \<rparr>) no_overrides
        (fresh signed_in))))
     = Val \<lparr> access_token = ''new'' \<rparr>"
  by code_simp

subsection \<open>How a call ends\<close>





text \<open>
  With the library's own error parser configured, a status outside 200 to 299 other than
  the unauthorized ones makes the call reject: \<^verbatim>\<open>dispatch\<close> reads the body, then the parser
  reads it again.
\<close>

lemma default_parser_second_read:
  "fst (dispatch (demo_hook\<lparr> errorParser := Some (hulkFetchErrorParser N),
          fetch := (\<lambda>n. Some (response_of 500 ''Internal Server Error'' ''oops'')) \<rparr>)
        no_overrides (fresh empty_auth)) = Rejected TypeError"
  by code_simp





section \<open>Properties of the alerts\<close>

subsection \<open>Searching and changing the document\<close>

lemma first_with_id_append:
  "first_with_id i (xs @ ys) n =
     (case first_with_id i xs n of Some p \<Rightarrow> Some p | None \<Rightarrow> first_with_id i ys (n + length xs))"
  by (induction xs arbitrary: n) (simp_all split: option.splits)

lemma first_with_id_None:
  "first_with_id i ks n = None \<longleftrightarrow> (\<forall>k \<in> set ks. find_id i k = None)"
  by (induction ks arbitrary: n) (auto split: option.splits)

lemma first_with_id_update_same:
  "find_id i x = find_id i (ks ! m) \<Longrightarrow> first_with_id i (ks[m := x]) n = first_with_id i ks n"
proof (induction ks arbitrary: m n)
  case Nil
  then show ?case by simp
next
  case (Cons k ks)
  then show ?case by (cases m) (simp_all split: option.splits)
qed

lemma first_with_id_Some:
  "first_with_id i ks n = Some p \<Longrightarrow>
     \<exists>m q. p = (n + m) # q \<and> m < length ks \<and> find_id i (ks ! m) = Some q"
proof (induction ks arbitrary: n)
  case Nil
  then show ?case by simp
next
  case (Cons k ks)
  show ?case
  proof (cases "find_id i k")
    case None
    with Cons.prems have "first_with_id i ks (Suc n) = Some p" by simp
    from Cons.IH [OF this] obtain m q where
      "p = (Suc n + m) # q" "m < length ks" "find_id i (ks ! m) = Some q" by blast
    then have "p = (n + Suc m) # q \<and> Suc m < length (k # ks) \<and> find_id i ((k # ks) ! Suc m) = Some q"
      by simp
    then show ?thesis by blast
  next
    case (Some q)
    with Cons.prems have "p = (n + 0) # q \<and> 0 < length (k # ks) \<and> find_id i ((k # ks) ! 0) = Some q"
      by simp
    then show ?thesis by blast
  qed
qed

lemma find_id_None:
  "find_id i e = None \<longleftrightarrow> elements_with_id i e = []"
proof (induction e)
  case (Element j c ks)
  then show ?case by (auto simp: first_with_id_None)
qed

lemma find_id_node:
  "find_id i e = Some p \<Longrightarrow> \<exists>x. node_at p e = Some x \<and> elem_id x = i"
proof (induction e arbitrary: p)
  case (Element j c ks)
  show ?case
  proof (cases "j = i")
    case True
    with Element.prems show ?thesis by simp
  next
    case False
    with Element.prems have "first_with_id i ks 0 = Some p" by simp
    from first_with_id_Some [OF this] obtain m q where
      m: "p = m # q" "m < length ks" "find_id i (ks ! m) = Some q" by auto
    from Element.IH [OF _ m(3)] m(2) obtain x where "node_at q (ks ! m) = Some x" "elem_id x = i"
      by auto
    with m show ?thesis by simp
  qed
qed

lemma node_at_snoc:
  "node_at (p @ [k]) e = Some x \<Longrightarrow>
     \<exists>t. node_at p e = Some t \<and> k < length (childNodes t) \<and> childNodes t ! k = x"
proof (induction p arbitrary: e)
  case Nil
  then show ?case by (cases e) (simp split: if_splits)
next
  case (Cons n p)
  then show ?case by (cases e) (simp split: if_splits)
qed

lemma node_at_modify:
  "node_at p (modify_at p f e) = map_option f (node_at p e)"
proof (induction p arbitrary: e)
  case Nil
  then show ?case by simp
next
  case (Cons n p)
  then show ?case by (cases e) simp
qed



lemma count_id_Element:
  "count_id i (Element j c ks) = (if j = i then 1 else 0) + sum_list (map (count_id i) ks)"
  by (simp add: count_id_def [abs_def] length_concat comp_def)

lemma count_id_zero: "count_id i e = 0 \<longleftrightarrow> find_id i e = None"
  by (simp add: count_id_def find_id_None)

lemma count_id_pos: "elem_id e = i \<Longrightarrow> 0 < count_id i e"
  by (cases e) (simp add: count_id_Element)

lemma sum_list_update:
  fixes g :: "'a \<Rightarrow> nat"
  shows "n < length ks \<Longrightarrow> sum_list (map g (ks[n := x])) + g (ks ! n) = sum_list (map g ks) + g x"
proof (induction ks arbitrary: n)
  case Nil
  then show ?case by simp
next
  case (Cons k ks)
  then show ?case by (cases n) (simp_all add: add.assoc)
qed

lemma sum_list_without:
  fixes g :: "'a \<Rightarrow> nat"
  shows "n < length ks \<Longrightarrow> sum_list (map g (take n ks @ drop (Suc n) ks)) + g (ks ! n) = sum_list (map g ks)"
proof (induction ks arbitrary: n)
  case Nil
  then show ?case by simp
next
  case (Cons k ks)
  then show ?case by (cases n) (simp_all add: add.assoc)
qed

lemma count_id_modify:
  "node_at p e = Some t \<Longrightarrow> elem_id (f t) = elem_id t \<Longrightarrow>
     count_id i (modify_at p f e) + count_id i t = count_id i e + count_id i (f t)"
proof (induction p arbitrary: e)
  case Nil
  then show ?case by simp
next
  case (Cons n p)
  obtain j c ks where e: "e = Element j c ks" by (cases e)
  from Cons.prems(1) e have n: "n < length ks" and t: "node_at p (ks ! n) = Some t"
    by (simp_all split: if_splits)
  note IH = Cons.IH [OF t Cons.prems(2)]
  have "sum_list (map (count_id i) (ks[n := modify_at p f (ks ! n)])) + count_id i (ks ! n)
          = sum_list (map (count_id i) ks) + count_id i (modify_at p f (ks ! n))"
    by (rule sum_list_update [OF n])
  with IH show ?case
    using n by (simp add: e count_id_Element)
qed

lemma count_id_without_child:
  "k < length (childNodes t) \<Longrightarrow>
     count_id i (without_child k t) + count_id i (childNodes t ! k) = count_id i t"
  by (cases t) (simp add: count_id_Element sum_list_without [of k _ "count_id i"] add.assoc
        del: map_append)

lemma elem_id_without_child: "elem_id (without_child k t) = elem_id t"
  by (cases t) simp

lemma elem_id_with_child: "elem_id (with_child x t) = elem_id t"
  by (cases t) simp

lemma count_id_with_child:
  "count_id i (with_child x t) = count_id i t + count_id i x"
  by (cases t) (simp add: count_id_Element)

lemma count_id_remove:
  assumes "node_at (p @ [k]) e = Some x"
  shows "count_id i (modify_at p (without_child k) e) + count_id i x = count_id i e"
proof -
  from node_at_snoc [OF assms] obtain t where
    t: "node_at p e = Some t" "k < length (childNodes t)" "childNodes t ! k = x" by blast
  from count_id_modify [OF t(1), of "without_child k" i] count_id_without_child [OF t(2), of i] t(3)
  show ?thesis by (simp add: elem_id_without_child)
qed

lemma count_id_append:
  assumes "node_at p e = Some t"
  shows "count_id i (appendChild p x e) = count_id i e + count_id i x"
  using count_id_modify [OF assms, of "with_child x" i]
  by (simp add: appendChild_def elem_id_with_child count_id_with_child)


lemma first_with_id_update_found:
  "\<forall>k \<in> set ks. find_id i k = None \<Longrightarrow> n < length ks \<Longrightarrow> find_id i y = Some q \<Longrightarrow>
     first_with_id i (ks[n := y]) m = Some ((m + n) # q)"
proof (induction ks arbitrary: n m)
  case Nil
  then show ?case by simp
next
  case (Cons k ks)
  then show ?case by (cases n) simp_all
qed

lemma find_id_appendChild_new:
  "find_id i e = None \<Longrightarrow> node_at p e = Some t \<Longrightarrow> elem_id x = i \<Longrightarrow>
     find_id i (appendChild p x e) = Some (p @ [length (childNodes t)])"
proof (induction p arbitrary: e)
  case Nil
  obtain j c ks where e: "e = Element j c ks" by (cases e)
  obtain c' ks' where x: "x = Element i c' ks'" using Nil.prems(3) by (cases x) simp
  from Nil.prems e have "j \<noteq> i" "first_with_id i ks 0 = None" "t = e"
    by (simp_all split: if_splits)
  then show ?case
    by (simp add: e x appendChild_def first_with_id_append)
next
  case (Cons n p)
  obtain j c ks where e: "e = Element j c ks" by (cases e)
  from Cons.prems(2) e have n: "n < length ks" and t: "node_at p (ks ! n) = Some t"
    by (simp_all split: if_splits)
  from Cons.prems(1) e have j: "j \<noteq> i" and none: "\<forall>k \<in> set ks. find_id i k = None"
    by (simp_all add: first_with_id_None split: if_splits)
  from none n have "find_id i (ks ! n) = None" by simp
  from Cons.IH [OF this t Cons.prems(3)]
  have "find_id i (modify_at p (with_child x) (ks ! n)) = Some (p @ [length (childNodes t)])"
    by (simp add: appendChild_def)
  from first_with_id_update_found [OF none n this, of 0] j n show ?case
    by (simp add: e appendChild_def)
qed

lemma find_id_appendChild_other:
  "find_id i x = None \<Longrightarrow> find_id i (appendChild p x e) = find_id i e"
proof (induction p arbitrary: e)
  case Nil
  then show ?case
    by (cases e) (simp add: appendChild_def first_with_id_append split: option.splits)
next
  case (Cons n p)
  obtain j c ks where e: "e = Element j c ks" by (cases e)
  show ?case
  proof (cases "n < length ks")
    case True
    from Cons.IH [OF Cons.prems, of "ks ! n"]
    have "find_id i (modify_at p (with_child x) (ks ! n)) = find_id i (ks ! n)"
      by (simp add: appendChild_def)
    from first_with_id_update_same [OF this, of 0] True show ?thesis
      by (simp add: e appendChild_def)
  next
    case False
    then show ?thesis by (simp add: e appendChild_def)
  qed
qed

lemma find_id_remove_under:
  "find_id i e = Some p \<Longrightarrow> find_id i (modify_at p (without_child k) e) = Some p"
proof (induction p arbitrary: e)
  case Nil
  obtain j c ks where e: "e = Element j c ks" by (cases e)
  from Nil.prems e have "j = i"
    by (auto split: if_splits dest: first_with_id_Some)
  then show ?case by (simp add: e)
next
  case (Cons n p)
  obtain j c ks where e: "e = Element j c ks" by (cases e)
  from Cons.prems e have j: "j \<noteq> i" and f: "first_with_id i ks 0 = Some (n # p)"
    by (simp_all split: if_splits)
  from first_with_id_Some [OF f] have n: "n < length ks" and c: "find_id i (ks ! n) = Some p"
    by auto
  from Cons.IH [OF c] c
  have "find_id i (modify_at p (without_child k) (ks ! n)) = find_id i (ks ! n)" by simp
  from first_with_id_update_same [OF this, of 0] f j n show ?case
    by (simp add: e)
qed

lemma count_id_node_at:
  "node_at p e = Some t \<Longrightarrow> count_id i t \<le> count_id i e"
proof (induction p arbitrary: e)
  case Nil
  then show ?case by simp
next
  case (Cons n p)
  obtain j c ks where e: "e = Element j c ks" by (cases e)
  from Cons.prems e have n: "n < length ks" and t: "node_at p (ks ! n) = Some t"
    by (simp_all split: if_splits)
  have "count_id i (ks ! n) \<le> sum_list (map (count_id i) ks)"
    using n by (simp add: member_le_sum_list)
  with Cons.IH [OF t] show ?case
    by (simp add: e count_id_Element)
qed

lemma elements_with_id_member:
  "node_at p e = Some x \<Longrightarrow> elem_id x = i \<Longrightarrow> x \<in> set (elements_with_id i e)"
proof (induction p arbitrary: e)
  case Nil
  then show ?case by (cases e) auto
next
  case (Cons n p)
  obtain j c ks where e: "e = Element j c ks" by (cases e)
  from Cons.prems e have n: "n < length ks" and t: "node_at p (ks ! n) = Some x"
    by (simp_all split: if_splits)
  from Cons.IH [OF t Cons.prems(2)] n show ?case
    by (auto simp: e)
qed

lemma no_alerts_in:
  assumes "count_id i e = 0" and "node_at p e = Some t"
  shows "alerts_in i t = []"
proof -
  from count_id_node_at [OF assms(2), of i] assms(1) have z: "count_id i t = 0" by simp
  obtain j c ks where t: "t = Element j c ks" by (cases t)
  have "elem_id k \<noteq> i" if "k \<in> set ks" for k
  proof
    assume "elem_id k = i"
    from count_id_pos [OF this] have "0 < count_id i k" .
    moreover from z that have "count_id i k = 0" by (simp add: t count_id_Element)
    ultimately show False by simp
  qed
  then show ?thesis
    by (simp add: alerts_in_def t filter_empty_conv)
qed



lemma node_at_append:
  "node_at (p @ q) e = (case node_at p e of None \<Rightarrow> None | Some t \<Rightarrow> node_at q t)"
proof (induction p arbitrary: e)
  case Nil
  then show ?case by simp
next
  case (Cons n p)
  then show ?case by (cases e) simp
qed

lemma singleton_member: "length xs = 1 \<Longrightarrow> x \<in> set xs \<Longrightarrow> xs = [x]"
  by (cases xs) auto

lemma append_alert:
  fixes c :: content
  assumes a: "find_id a d = None" and x: "find_id x d = Some tp"
  defines "new \<equiv> Element a c []"
  shows "find_id x (appendChild tp new d) = Some tp"
    and "\<exists>m. find_id a (appendChild tp new d) = Some (tp @ [m])"
    and "elements_with_id a (appendChild tp new d) = [new]"
    and "\<exists>t. node_at tp (appendChild tp new d) = Some t \<and> alerts_in a t = [new]"
proof -
  from a x have ne: "a \<noteq> x" by auto
  from find_id_node [OF x] obtain t0 where t0: "node_at tp d = Some t0" by blast
  obtain j c0 ks where t0_def: "t0 = Element j c0 ks" by (cases t0)
  have "find_id x new = None" using ne by (simp add: new_def)
  from find_id_appendChild_other [OF this] x
  show "find_id x (appendChild tp new d) = Some tp" by simp
  have f: "find_id a (appendChild tp new d) = Some (tp @ [length ks])"
    using find_id_appendChild_new [OF a t0, of new] by (simp add: new_def t0_def)
  then show "\<exists>m. find_id a (appendChild tp new d) = Some (tp @ [m])" by blast
  have n: "node_at tp (appendChild tp new d) = Some (Element j c0 (ks @ [new]))"
    by (simp add: appendChild_def node_at_modify t0 t0_def)
  have z: "count_id a d = 0" using a by (simp add: count_id_zero)
  have "count_id a (appendChild tp new d) = 1"
    using count_id_append [OF t0, of a new] z by (simp add: new_def count_id_Element)
  then have l: "length (elements_with_id a (appendChild tp new d)) = 1"
    by (simp add: count_id_def)
  have "node_at (tp @ [length ks]) (appendChild tp new d) = Some new"
    by (simp add: node_at_append n)
  from elements_with_id_member [OF this, of a]
  have "new \<in> set (elements_with_id a (appendChild tp new d))" by (simp add: new_def)
  from singleton_member [OF l this]
  show "elements_with_id a (appendChild tp new d) = [new]" .
  have "alerts_in a t0 = []" by (rule no_alerts_in [OF z t0])
  then have "alerts_in a (Element j c0 (ks @ [new])) = [new]"
    by (simp add: alerts_in_def t0_def new_def)
  with n show "\<exists>t. node_at tp (appendChild tp new d) = Some t \<and> alerts_in a t = [new]"
    by blast
qed

lemma resolve_target_id:
  assumes "resolve_target G opts doc = Some tp"
  shows "\<exists>x. x \<noteq> [] \<and> find_id x doc = Some tp \<and> (\<forall>d. resolve_target G opts d = find_id x d)"
proof -
  define x where "x = (case targetId opts of None \<Rightarrow> global_targetId G
      | Some t \<Rightarrow> if t \<noteq> [] then t else global_targetId G)"
  have r: "resolve_target G opts d = getElementById d x" for d
    by (simp add: resolve_target_def x_def split: option.splits)
  with assms have "x \<noteq> []" by (auto simp: getElementById_def)
  with r assms show ?thesis by (auto simp: getElementById_def)
qed

lemma remove_duplicate_clears:
  assumes rep: "replaceDuplicates G" and a: "alertId opts \<noteq> []"
    and x: "find_id x doc = Some tp"
    and inv: "at_most_one_alert (alertId opts) tp doc"
  shows "\<exists>d. remove_duplicate G opts tp doc = Inr d
           \<and> find_id (alertId opts) d = None \<and> find_id x d = Some tp"
proof (cases "find_id (alertId opts) doc")
  case None
  with rep a x show ?thesis
    by (simp add: remove_duplicate_def getElementById_def)
next
  case (Some p)
  with inv have p: "p \<noteq> []" "butlast p = tp" and le: "count_id (alertId opts) doc \<le> 1"
    by (simp_all add: at_most_one_alert_def count_id_def)
  define k where "k = last p"
  from p have pk: "p = tp @ [k]"
    using append_butlast_last_id [of p] by (simp add: k_def)
  let ?d = "modify_at tp (without_child k) doc"
  have rd: "remove_duplicate G opts tp doc = Inr ?d"
    using rep a Some p
    by (simp add: remove_duplicate_def getElementById_def contains_def removeChild_def pk)
  from find_id_node [OF Some] obtain y where y: "node_at (tp @ [k]) doc = Some y" "elem_id y = alertId opts"
    by (auto simp: pk)
  from count_id_remove [OF y(1), of "alertId opts"] count_id_pos [OF y(2)] le
  have "count_id (alertId opts) ?d = 0" by simp
  then have "find_id (alertId opts) ?d = None" by (simp add: count_id_zero)
  moreover have "find_id x ?d = Some tp" by (rule find_id_remove_under [OF x])
  ultimately show ?thesis using rd by blast
qed

lemma push_replaces:
  assumes rep: "replaceDuplicates G" and a: "alertId opts \<noteq> []"
    and tr: "node_truthy node"
    and tgt: "resolve_target G opts doc = Some tp"
    and inv: "at_most_one_alert (alertId opts) tp doc"
  shows "\<exists>doc'. push G node opts doc = Inr doc'
     \<and> resolve_target G opts doc' = Some tp
     \<and> at_most_one_alert (alertId opts) tp doc'
     \<and> elements_with_id (alertId opts) doc' = [Element (alertId opts) (node_content node) []]
     \<and> (\<exists>t. node_at tp doc' = Some t
            \<and> alerts_in (alertId opts) t = [Element (alertId opts) (node_content node) []])"
proof -
  from resolve_target_id [OF tgt] obtain x where
    x: "find_id x doc = Some tp" "\<And>d. resolve_target G opts d = find_id x d" by blast
  from remove_duplicate_clears [OF rep a x(1) inv] obtain d where
    d: "remove_duplicate G opts tp doc = Inr d" "find_id (alertId opts) d = None"
       "find_id x d = Some tp" by blast
  let ?new = "Element (alertId opts) (node_content node) []"
  let ?doc' = "appendChild tp ?new d"
  note A = append_alert [OF d(2,3), of "node_content node"]
  have "push G node opts doc = Inr ?doc'"
    using tgt tr d(1) by (simp add: push_def)
  moreover have "resolve_target G opts ?doc' = Some tp"
    using A(1) by (simp add: x(2))
  moreover have "at_most_one_alert (alertId opts) tp ?doc'"
    using A(2,3) by (auto simp: at_most_one_alert_def)
  ultimately show ?thesis
    using A(3,4) by blast
qed

subsection \<open>Replacing an alert\<close>

text \<open>
  C9 (the claim fails): the page has a second container, earlier in the document, that
  shows an alert with the same id.  \<^verbatim>\<open>document.getElementById\<close> finds that one, the
  target does not contain it, nothing is removed, and after two pushes the target holds
  two elements with the id.
\<close>

theorem push_twice_duplicates:
  "push_twice replace_config (RString ''first'') (RString ''second'') error_alert two_containers
     = Inr (Element ''page'' (Text [])
         [Element ''form-alerts'' (Text []) [Element ''error'' (Text ''Name is required'') []],
          Element ''alerts'' (Text [])
            [Element ''error'' (Text ''first'') [], Element ''error'' (Text ''second'') []]])"
  by code_simp

text \<open>
  C9 (amended): with duplicate replacement enabled, a non-empty alert id, two truthy
  contents and an existing container, if before the pushes the document holds at most
  one element with that id, and that one as a child of the container, then after the two
  pushes the document, and so the container, holds exactly one element with that id: a
  child of the container whose content is that of the second push.
\<close>

theorem push_twice_replaces:
  assumes "replaceDuplicates G" and "alertId opts \<noteq> []"
    and "node_truthy first" and "node_truthy second"
    and "resolve_target G opts doc = Some target"
    and "at_most_one_alert (alertId opts) target doc"
  shows "\<exists>doc2. push_twice G first second opts doc = Inr doc2
     \<and> resolve_target G opts doc2 = Some target
     \<and> elements_with_id (alertId opts) doc2 = [Element (alertId opts) (node_content second) []]
     \<and> (\<exists>container. node_at target doc2 = Some container
            \<and> alerts_in (alertId opts) container
                = [Element (alertId opts) (node_content second) []])"
proof -
  from push_replaces [OF assms(1,2,3,5,6)] obtain doc1 where
    1: "push G first opts doc = Inr doc1" "resolve_target G opts doc1 = Some target"
       "at_most_one_alert (alertId opts) target doc1" by blast
  from push_replaces [OF assms(1,2,4) 1(2,3)] obtain doc2 where
    2: "push G second opts doc1 = Inr doc2" "resolve_target G opts doc2 = Some target"
       "elements_with_id (alertId opts) doc2 = [Element (alertId opts) (node_content second) []]"
       "\<exists>t. node_at target doc2 = Some t
          \<and> alerts_in (alertId opts) t = [Element (alertId opts) (node_content second) []]"
    by blast
  have "push_twice G first second opts doc = Inr doc2"
    using 1(1) 2(1) by (simp add: push_twice_def)
  with 2(2,3,4) show ?thesis by blast
qed

lemma scenario_empty:
  "resolve_target replace_config error_alert empty_containers = Some [1]"
  "at_most_one_alert ''error'' [1] empty_containers"
  by code_simp+

theorem push_twice_replaces_witness:
  "\<exists>doc2. push_twice replace_config (RString ''first'') (RString ''second'') error_alert
             empty_containers = Inr doc2
     \<and> elements_with_id ''error'' doc2 = [Element ''error'' (Text ''second'') []]"
  using push_twice_replaces [of replace_config error_alert "RString ''first''" "RString ''second''"
      empty_containers "[1]"] scenario_empty
  by (auto simp: replace_config_def error_alert_def)

end
